theory Spec2Isabelle
  imports Main "HOL-Library.Sublist" "HOL-Library.AList" "HOL-Library.Multiset"
begin

section \<open>JavaScript strings and Node's path helpers\<close>

text \<open>
  Strings are \<^typ>\<open>string\<close>. The helpers below are the JavaScript string methods and the
  functions of Node's \<open>path\<close> module (POSIX flavour) that the repository calls.
\<close>

definition js_includes :: "string \<Rightarrow> string \<Rightarrow> bool" where
  \<comment> \<open>\<open>s.includes(pat)\<close>: \<open>pat\<close> occurs in \<open>s\<close> as a contiguous substring.\<close>
  "js_includes s pat = sublist pat s"

definition startsWith :: "string \<Rightarrow> string \<Rightarrow> bool" where
  "startsWith s pat = prefix pat s"

fun replace_first :: "string \<Rightarrow> string \<Rightarrow> string \<Rightarrow> string" where
  \<comment> \<open>\<open>s.replace(pat, rep)\<close> with a string pattern: only the first occurrence is replaced.\<close>
  "replace_first pat rep [] = (if pat = [] then rep else [])"
| "replace_first pat rep (c # cs) =
     (if prefix pat (c # cs) then rep @ drop (length pat) (c # cs)
      else c # replace_first pat rep cs)"

fun split_on :: "char \<Rightarrow> string \<Rightarrow> string list" where
  \<comment> \<open>\<open>s.split(sep)\<close> for a one-character separator; \<open>"".split(sep)\<close> is \<open>[""]\<close>.\<close>
  "split_on sep [] = [[]]"
| "split_on sep (c # cs) =
     (if c = sep then [] # split_on sep cs
      else (case split_on sep cs of [] \<Rightarrow> [[c]] | w # ws \<Rightarrow> (c # w) # ws))"

fun join_with :: "string \<Rightarrow> string list \<Rightarrow> string" where
  \<comment> \<open>\<open>xs.join(sep)\<close>\<close>
  "join_with sep [] = []"
| "join_with sep [x] = x"
| "join_with sep (x # y # ys) = x @ sep @ join_with sep (y # ys)"

definition is_whitespace :: "char \<Rightarrow> bool" where
  \<comment> \<open>The ASCII white space and line terminators that \<open>trim\<close> strips.\<close>
  "is_whitespace c = (c \<in> {CHR '' '', CHR 0x09, CHR 0x0A, CHR 0x0B, CHR 0x0C, CHR 0x0D})"

definition trim :: "string \<Rightarrow> string" where
  "trim s = rev (dropWhile is_whitespace (rev (dropWhile is_whitespace s)))"

definition extname :: "string \<Rightarrow> string" where
  \<comment> \<open>\<open>path.extname\<close>: from the last dot of the last path portion (trailing slashes
      ignored) to its end; empty when that portion has no dot, when its last dot is its
      first character, or when the portion is \<open>..\<close>.\<close>
  "extname p =
     (let stripped = rev (dropWhile (\<lambda>c. c = CHR ''/'') (rev p));
          base = rev (takeWhile (\<lambda>c. c \<noteq> CHR ''/'') (rev stripped));
          ext = rev (takeWhile (\<lambda>c. c \<noteq> CHR ''.'') (rev base))
      in if CHR ''.'' \<notin> set base then []
         else if length ext + 1 = length base then []
         else if base = ''..'' then []
         else CHR ''.'' # ext)"

fun normalize_segments :: "bool \<Rightarrow> string list \<Rightarrow> string list \<Rightarrow> string list" where
  \<comment> \<open>Node's \<open>normalizeString\<close> on the segments of a path; \<open>acc\<close> holds the kept
      segments, last one first.\<close>
  "normalize_segments allowAboveRoot acc [] = rev acc"
| "normalize_segments allowAboveRoot acc (s # ss) =
     (if s = [] \<or> s = ''.'' then normalize_segments allowAboveRoot acc ss
      else if s = ''..'' then
        (case acc of
           a # as \<Rightarrow>
             (if a \<noteq> ''..'' then normalize_segments allowAboveRoot as ss
              else if allowAboveRoot then normalize_segments allowAboveRoot (''..'' # acc) ss
              else normalize_segments allowAboveRoot acc ss)
         | [] \<Rightarrow>
             (if allowAboveRoot then normalize_segments allowAboveRoot [''..''] ss
              else normalize_segments allowAboveRoot [] ss))
      else normalize_segments allowAboveRoot (s # acc) ss)"

definition path_normalize :: "string \<Rightarrow> string" where
  "path_normalize p =
     (if p = [] then ''.''
      else
        let isAbsolute = (hd p = CHR ''/'');
            trailingSeparator = (last p = CHR ''/'');
            q = join_with ''/'' (normalize_segments (\<not> isAbsolute) [] (split_on CHR ''/'' p))
        in if q = [] then (if isAbsolute then ''/'' else if trailingSeparator then ''./'' else ''.'')
           else (if isAbsolute then ''/'' else []) @ q @ (if trailingSeparator then ''/'' else []))"

definition path_join :: "string \<Rightarrow> string \<Rightarrow> string" where
  \<comment> \<open>\<open>path.join(a, b)\<close>\<close>
  "path_join a b =
     (case filter (\<lambda>x. x \<noteq> []) [a, b] of
        [] \<Rightarrow> ''.''
      | xs \<Rightarrow> path_normalize (join_with ''/'' xs))"

section \<open>Filter policy\<close>

record FileContent =
  path :: string
  content :: string

definition defaultIgnorePatterns :: string where
  "defaultIgnorePatterns = join_with [CHR 0x0A]
     [ [],
       ''    ui'',
       ''    node_modules/'',
       ''    .git'',
       ''    dist/'',
       ''    build/'',
       ''    coverage/'',
       ''    .log$'',
       ''    .env$'',
       ''    .lock$'',
       ''    .md$'',
       ''    .min.js$'',
       ''    package-lock.json'',
       CHR 0x09 # ''.vscode'',
       ''    .editorconfig'',
       ''    .gitignore'',
       ''    license'',
       CHR 0x09 # ''LICENSE'',
       ''    tsconfig.json'',
       ''    .dockerignore'',
       CHR 0x09 # ''tailwind.config.ts'',
       [],
       [] ]"

definition supportedExtensions :: string where
  "supportedExtensions = ''.js .json .ts .jsx .tsx .py .java .cpp .rb .php .go .rs .swift .cs''"

definition fileTypePrefixes :: "(string \<times> string) list" where
  "fileTypePrefixes =
     [ (''.ts'', ''```typescript''),
       (''.tsx'', ''```typescript''),
       (''.js'', ''```javascript''),
       (''.jsx'', ''```javascript''),
       (''.java'', ''```java''),
       (''.c'', ''```c''),
       (''.cpp'', ''```c++''),
       (''.cs'', ''```csharp''),
       (''.go'', ''```go''),
       (''.py'', ''```python''),
       (''.rb'', ''```ruby''),
       (''.sh'', ''```bash''),
       (''.md'', ''```markdown''),
       (''.json'', ''```json''),
       (''.yaml'', ''```yaml''),
       (''.html'', ''```html''),
       (''.css'', ''```css''),
       (''.sql'', ''```sql'') ]"

definition addMarkdownPrefix :: "string \<Rightarrow> string" where
  \<comment> \<open>\<open>a || b\<close> is \<open>b\<close> when \<open>a\<close> is undefined or the empty string.\<close>
  "addMarkdownPrefix filename =
     (let ext = extname filename;
          pre = (case map_of fileTypePrefixes ext of
                   Some l \<Rightarrow> if l = [] then ''```'' else l
                 | None \<Rightarrow> ''```'')
      in pre @ [CHR 0x0A])"

definition addMarkdownSuffix :: "string \<Rightarrow> string" where
  "addMarkdownSuffix filename =
     (let ext = extname filename;
          suffix = (case map_of fileTypePrefixes ext of
                      Some l \<Rightarrow> if l = [] then ''```'' else l
                    | None \<Rightarrow> ''```'')
      in CHR 0x0A # suffix)"

definition isSupportedExtension :: "string \<Rightarrow> bool" where
  "isSupportedExtension filename =
     (extname filename \<in> set (split_on CHR '' '' supportedExtensions))"

datatype ignore_patterns =
    PatternList "string list"
  | RegExp "string \<Rightarrow> bool"

definition parseIgnorePatterns :: "string \<Rightarrow> ignore_patterns" where
  \<comment> \<open>The regular expression built from the patterns is never used: the function
      returns the list of cleaned lines, or the expression \<open>/(?:)/\<close>, which every string
      matches, when no line is left.\<close>
  "parseIgnorePatterns patterns =
     (let ignorePatterns =
            filter (\<lambda>line. line \<noteq> [] \<and> \<not> startsWith line ''#'')
              (map (\<lambda>line. replace_first [CHR 0x09] [] (trim line))
                 (split_on (CHR 0x0A) patterns))
      in if length ignorePatterns = 0 then RegExp (\<lambda>_. True) else PatternList ignorePatterns)"

section \<open>Repository walker\<close>

text \<open>
  A committed tree as isomorphic-git's \<open>walk\<close> presents it: every entry has its full
  path, the string its \<open>type()\<close> yields (\<open>tree\<close>, \<open>blob\<close>, \<open>special\<close> or \<open>commit\<close>),
  what \<open>content()\<close> yields (\<open>Inl msg\<close> when reading the object throws, \<open>Inr txt\<close> for the
  UTF-8 text of the bytes read) and the entries below it.
\<close>

datatype git_entry =
  GitEntry (fullpath: string) (etype: string) (econtent: "string + string")
    (subentries: "git_entry list")

datatype error = Error (message: string)

datatype js_ret = Undefined | JsTrue | Null

fun entries_of :: "git_entry \<Rightarrow> git_entry list" where
  \<comment> \<open>The entries of a tree, each directory before what it holds.\<close>
  "entries_of (GitEntry p t c kids) = GitEntry p t c kids # concat (map entries_of kids)"

text \<open>
  The library's \<open>walk\<close> with one \<open>TREE\<close> walker. The callback \<open>map\<close> is asynchronous: it
  runs on an entry before the children of the entry, the children are walked unless it
  returned \<open>null\<close>, and the walks of the children of one directory are started together
  (\<open>Promise.all\<close>), so that the callbacks of different entries interleave at their
  awaits. A callback is therefore given in segments: what it does up to the await after
  which it touches the state again (\<open>Awaiting\<close>, with what it does once resumed), or up
  to its return or its throw. A segment runs without interruption, on the state as it is
  when the segment starts.
\<close>

datatype 's segment =
    Returned js_ret
  | Threw error
  | Awaiting "'s \<Rightarrow> (error + js_ret) \<times> 's"

datatype 's thread =
    Start git_entry
  | Resume git_entry "'s \<Rightarrow> (error + js_ret) \<times> 's"

type_synonym 's callback = "string \<Rightarrow> git_entry option \<Rightarrow> 's \<Rightarrow> 's segment \<times> 's"

fun thread_weight :: "'s thread \<Rightarrow> nat" where
  "thread_weight (Start e) = 2 * length (entries_of e)"
| "thread_weight (Resume e k) = 2 * length (entries_of e) - 1"

definition started :: "js_ret \<Rightarrow> git_entry \<Rightarrow> 's thread list" where
  \<comment> \<open>The walks that begin when the callback of an entry has returned \<open>r\<close>.\<close>
  "started r e = (if r = Null then [] else map Start (subentries e))"

fun thread_step :: "'s callback \<Rightarrow> 's thread \<Rightarrow> 's \<Rightarrow> (error + 's thread list) \<times> 's" where
  \<comment> \<open>The next segment of one walk: the error it throws, or the walks that replace it.\<close>
  "thread_step cb (Start e) s =
     (case cb (fullpath e) (Some e) s of
        (Threw err, s') \<Rightarrow> (Inl err, s')
      | (Returned r, s') \<Rightarrow> (Inr (started r e), s')
      | (Awaiting k, s') \<Rightarrow> (Inr [Resume e k], s'))"
| "thread_step cb (Resume e k) s =
     (case k s of
        (Inl err, s') \<Rightarrow> (Inl err, s')
      | (Inr r, s') \<Rightarrow> (Inr (started r e), s'))"

definition replace_at :: "nat \<Rightarrow> 'a list \<Rightarrow> 'a list \<Rightarrow> 'a list" where
  "replace_at i new xs = take i xs @ new @ drop (Suc i) xs"

definition next_index :: "nat list \<Rightarrow> nat \<Rightarrow> nat" where
  \<comment> \<open>Which of \<open>n\<close> pending walks runs next: the head of the schedule, the first walk
      once the schedule is used up.\<close>
  "next_index sched n = (case sched of [] \<Rightarrow> 0 | c # _ \<Rightarrow> c mod n)"

text \<open>
  The pending walks run one segment at a time, in the order a schedule gives; the
  schedule stands for the order in which the awaited reads complete, which the program
  does not control. With the empty schedule the entries are taken one after the other,
  depth first. The first error ends the walk, as the rejection of \<open>Promise.all\<close> does; the
  state is returned with it, since what was written before a throw stays written.
\<close>

function walk_threads :: "'s callback \<Rightarrow> nat list \<Rightarrow> 's thread list \<Rightarrow> 's \<Rightarrow> error option \<times> 's" where
  "walk_threads cb sched threads s =
     (if threads = [] then (None, s)
      else
        (case thread_step cb (threads ! next_index sched (length threads)) s of
           (Inl err, s') \<Rightarrow> (Some err, s')
         | (Inr new, s') \<Rightarrow>
             walk_threads cb (tl sched) (replace_at (next_index sched (length threads)) new threads) s'))"
  by pat_completeness auto
termination
proof -
  have children: "sum_list (map thread_weight (started r e :: 's thread list)) < 2 * length (entries_of e) - 1"
    for r e
    by (cases e) (simp add: started_def comp_def length_concat sum_list_const_mult)
  have step: "sum_list (map thread_weight new) < thread_weight t"
    if "thread_step cb t s = (Inr new, s')" for cb :: "'s callback" and t new s s'
  proof (cases t)
    case (Start e)
    have pos: "0 < length (entries_of e)" by (cases e) simp
    from that Start consider r where "new = started r e" | k where "new = [Resume e k]"
      by (auto split: prod.splits segment.splits)
    then show ?thesis
    proof cases
      case 1
      have "sum_list (map thread_weight new) < 2 * length (entries_of e) - 1"
        using children[of r e] 1 by simp
      then have "sum_list (map thread_weight new) < 2 * length (entries_of e)" by arith
      with Start show ?thesis by simp
    next
      case 2
      with pos Start show ?thesis by simp
    qed
  next
    case (Resume e k)
    from that Resume obtain r where "new = started r e"
      by (auto split: prod.splits sum.splits)
    with children[of r e] Resume show ?thesis by simp
  qed
  have replace: "sum_list (map thread_weight (replace_at i new ts)) < sum_list (map thread_weight ts)"
    if "i < length ts" "sum_list (map thread_weight new) < thread_weight (ts ! i)"
    for i new and ts :: "'s thread list"
  proof -
    have "sum_list (map thread_weight (take i ts)) + sum_list (map thread_weight (drop i ts))
            = sum_list (map thread_weight ts)"
      by (metis append_take_drop_id map_append sum_list.append)
    moreover have "drop i ts = ts ! i # drop (Suc i) ts"
      using that(1) by (simp add: Cons_nth_drop_Suc)
    ultimately show ?thesis using that(2) by (simp add: replace_at_def)
  qed
  have pick: "next_index sched (length ts) < length ts" if "ts \<noteq> []" for sched and ts :: "'s thread list"
    using that by (simp add: next_index_def split: list.split)
  show ?thesis
  proof (relation "measure (\<lambda>(cb, sched, threads, s). sum_list (map thread_weight threads))")
    show "wf (measure (\<lambda>(cb :: 's callback, sched :: nat list, threads, s :: 's).
                 sum_list (map thread_weight threads)))"
      by simp
  next
    fix cb :: "'s callback" and sched :: "nat list" and threads :: "'s thread list"
      and s :: 's and x y b
    assume "threads \<noteq> []"
      and "(x, y) = thread_step cb (threads ! next_index sched (length threads)) s"
      and "x = Inr b"
    then have "sum_list (map thread_weight (replace_at (next_index sched (length threads)) b threads))
                 < sum_list (map thread_weight threads)"
      by (intro replace pick step[of cb _ s b y]) simp_all
    then show "((cb, tl sched, replace_at (next_index sched (length threads)) b threads, y),
                cb, sched, threads, s)
               \<in> measure (\<lambda>(cb, sched, threads, s). sum_list (map thread_weight threads))"
      by simp
  qed
qed

definition walk :: "'s callback \<Rightarrow> nat list \<Rightarrow> git_entry \<Rightarrow> 's \<Rightarrow> error option \<times> 's" where
  "walk cb sched root s = walk_threads cb sched [Start root] s"

record walk_state =
  fileContents :: "(string \<times> FileContent) list"
  console :: "string list"

definition ignored :: "ignore_patterns \<Rightarrow> string \<Rightarrow> bool" where
  \<comment> \<open>The first check of the callback of \<open>walkTree\<close>: whether it returns before the
      \<open>examples\<close>/\<open>tests\<close> test.\<close>
  "ignored ignorePatterns fullPath =
     (case ignorePatterns of
        PatternList pats \<Rightarrow>
          list_ex (\<lambda>pattern. js_includes fullPath (replace_first ''$'' [] pattern)
                             \<or> \<not> isSupportedExtension fullPath) pats
      | RegExp test \<Rightarrow> test fullPath \<or> \<not> isSupportedExtension fullPath)"

definition fullPath_of :: "string \<Rightarrow> string \<Rightarrow> string" where
  \<comment> \<open>\<open>currentPath ? path.join(currentPath, filepath) : filepath\<close>\<close>
  "fullPath_of currentPath filepath =
     (if currentPath \<noteq> [] then path_join currentPath filepath else filepath)"

definition walkTree_content ::
  "string \<Rightarrow> string \<Rightarrow> git_entry \<Rightarrow> walk_state \<Rightarrow> (error + js_ret) \<times> walk_state"
where
  \<comment> \<open>The callback of \<open>walkTree\<close> from the point where \<open>await entry.content()\<close> completes.\<close>
  "walkTree_content fullPath filepath entry st =
     (case econtent entry of
        Inl msg \<Rightarrow> (Inl (Error msg), st)
      | Inr txt \<Rightarrow>
          let formattedContent = addMarkdownPrefix filepath @ txt @ addMarkdownSuffix filepath
          in (Inr Undefined,
              st\<lparr>fileContents :=
                   AList.update fullPath \<lparr>path = fullPath, content = formattedContent\<rparr>
                     (fileContents st)\<rparr>))"

definition walkTree_map ::
  "ignore_patterns \<Rightarrow> string \<Rightarrow> string \<Rightarrow> git_entry option \<Rightarrow> walk_state \<Rightarrow> walk_state segment \<times> walk_state"
where
  \<comment> \<open>The callback of \<open>walkTree\<close> up to \<open>await entry.content()\<close>. The tests on the path
      read no state, so they are taken with the test on the size of the map, which runs
      once \<open>await entry.type()\<close> has completed.\<close>
  "walkTree_map ignorePatterns currentPath filepath entries st =
     (if filepath = [] then (Returned Undefined, st)
      else case entries of
        None \<Rightarrow> (Returned Undefined, st)
      | Some entry \<Rightarrow>
          let fullPath = fullPath_of currentPath filepath in
          if ignored ignorePatterns fullPath then
            (case ignorePatterns of
               PatternList _ \<Rightarrow> (Returned Undefined, st)
             | RegExp _ \<Rightarrow>
                 (Returned Undefined,
                  st\<lparr>console := console st @ [''skipping: '' @ fullPath @ ''. Unsupported extension'']\<rparr>))
          else if js_includes fullPath ''examples'' \<or> js_includes fullPath ''example''
                  \<or> js_includes fullPath ''tests'' \<or> js_includes fullPath ''test''
          then (Returned Undefined, st)
          else if etype entry = ''blob'' \<and> length (fileContents st) < 11 then
            (Awaiting (walkTree_content fullPath filepath entry), st)
          else if etype entry = ''tree'' then (Returned JsTrue, st)
          else (Returned Undefined, st))"

text \<open>
  The clone on disk, as far as the walker reads it: the files \<open>listFiles\<close> lists for a
  reference (or the message of its failure) and the tree that \<open>TREE({ref})\<close> opens (the
  library opens the empty tree for a reference it cannot resolve), or the message of the
  failure to read it.
\<close>

record repo =
  listFiles :: "string \<Rightarrow> string + string list"
  treeOf :: "string \<Rightarrow> string + git_entry"

definition walkTree ::
  "nat list \<Rightarrow> repo \<Rightarrow> string \<Rightarrow> walk_state \<Rightarrow> ignore_patterns \<Rightarrow> string \<Rightarrow> error option \<times> walk_state"
where
  "walkTree sched dir commitOid st ignorePatterns currentPath =
     (case treeOf dir commitOid of
        Inl msg \<Rightarrow> (Some (Error msg), st)
      | Inr root \<Rightarrow> walk (walkTree_map ignorePatterns currentPath) sched root st)"

definition getRepositoryStructure_map ::
  "string \<Rightarrow> git_entry option \<Rightarrow> string \<Rightarrow> string segment \<times> string"
where
  \<comment> \<open>The listing is touched once, after \<open>await entry.type()\<close>: one segment.\<close>
  "getRepositoryStructure_map filepath entries listing =
     (if filepath = [] then (Returned Undefined, listing)
      else case entries of
        None \<Rightarrow> (Returned Undefined, listing)
      | Some entry \<Rightarrow>
          let indentLevel = length (split_on CHR ''/'' filepath) - 1;
              spaces = concat (replicate indentLevel ''  '')
          in if etype entry = ''tree'' then
               (Returned JsTrue, listing @ spaces @ ''- '' @ filepath @ '' (directory)'' @ [CHR 0x0A])
             else if etype entry = ''blob'' then
               (Returned Undefined, listing @ spaces @ ''- '' @ filepath @ '' (file)'' @ [CHR 0x0A])
             else
               (Returned Undefined, listing @ spaces @ ''- '' @ filepath @ '' (unknown)'' @ [CHR 0x0A]))"

definition getRepositoryStructure :: "nat list \<Rightarrow> repo \<Rightarrow> string \<Rightarrow> error + string" where
  "getRepositoryStructure sched dir commitOid =
     (case treeOf dir commitOid of
        Inl msg \<Rightarrow> Inl (Error msg)
      | Inr root \<Rightarrow>
          (case walk getRepositoryStructure_map sched root [] of
             (Some e, _) \<Rightarrow> Inl e
           | (None, listing) \<Rightarrow> Inr listing))"

section \<open>Workspace manager\<close>

text \<open>
  What the outside world answers to one call of \<open>getRepositoryData\<close>: the name of the
  fresh directory \<open>mkdtemp\<close> makes (or its failure), the clone (the upstream message of
  its failure, or the repository now on disk), the schedules of the two walks and
  whether the final \<open>rm\<close> throws. The state that the call changes is the set of
  temporary directories on disk and the lines written to the console.
\<close>

record world =
  mkdtemp :: "string + string"
  clone :: "string \<Rightarrow> (string \<times> string) list \<Rightarrow> bool \<Rightarrow> string + repo"
  extraction_order :: "nat list"
  listing_order :: "nat list"
  rm_error :: "string option"

record sys_state =
  tmpdirs :: "string set"
  sys_console :: "string list"

definition getRepositoryData_try ::
  "world \<Rightarrow> string \<Rightarrow> (string \<times> string) list \<Rightarrow> string \<Rightarrow> string list
     \<Rightarrow> (error + (string \<times> FileContent) list \<times> string) \<times> string list"
where
  \<comment> \<open>The body of the \<open>try\<close> block, with the console it leaves.\<close>
  "getRepositoryData_try w url headers branch out =
     (case clone w url headers (branch \<noteq> []) of
        Inl msg \<Rightarrow> (Inl (Error msg), out)
      | Inr dir \<Rightarrow>
          (case listFiles dir (if branch \<noteq> [] then branch else ''HEAD'') of
             Inl msg \<Rightarrow> (Inl (Error msg), out)
           | Inr commitOid \<Rightarrow>
               if length commitOid = 0 then
                 (Inl (Error (''Could not find commit for branch: ''
                         @ (if branch \<noteq> [] then branch else ''HEAD''))), out)
               else
                 let ignorePatterns = parseIgnorePatterns defaultIgnorePatterns in
                 (case walkTree (extraction_order w) dir branch \<lparr>fileContents = [], console = out\<rparr>
                         ignorePatterns [] of
                    (Some e, st) \<Rightarrow> (Inl e, console st)
                  | (None, st) \<Rightarrow>
                      (case getRepositoryStructure (listing_order w) dir branch of
                         Inl e \<Rightarrow> (Inl e, console st)
                       | Inr listing \<Rightarrow> (Inr (fileContents st, listing), console st)))))"

definition getRepositoryData ::
  "world \<Rightarrow> string \<Rightarrow> (string \<times> string) list \<Rightarrow> string \<Rightarrow> sys_state
     \<Rightarrow> (error + (string \<times> FileContent) list \<times> string) \<times> sys_state"
where
  "getRepositoryData w url headers branch s =
     (case mkdtemp w of
        Inl msg \<Rightarrow> (Inl (Error msg), s)
      | Inr dir \<Rightarrow>
          let s1 = s\<lparr>tmpdirs := insert dir (tmpdirs s)\<rparr>;
              (r, out) = getRepositoryData_try w url headers branch (sys_console s1);
              (r', out') =
                (case r of
                   Inl e \<Rightarrow>
                     (Inl (Error (''Failed to get repository data: '' @ message e)),
                      out @ [''Error getting repository data: '' @ message e])
                 | Inr v \<Rightarrow> (Inr v, out));
              s2 = s1\<lparr>sys_console := out'\<rparr>
          in (case rm_error w of
                None \<Rightarrow> (r', s2\<lparr>tmpdirs := tmpdirs s2 - {dir}\<rparr>)
              | Some msg \<Rightarrow>
                  (r', s2\<lparr>sys_console :=
                         sys_console s2 @ [''Error cleaning up temporary directory: '' @ msg]\<rparr>)))"

section \<open>Structural summarizer\<close>

text \<open>
  A node of the syntax tree, as the TypeScript compiler API shows it to the summarizer:
  its kind (the name of the member of \<open>ts.SyntaxKind\<close>), the string \<open>ts.SyntaxKind[node.kind]\<close>
  prints for it, whether \<open>ts.isToken\<close> and \<open>ts.canHaveModifiers\<close> hold, its source text, for
  every JSDoc tag of the
  node the comment of the JSDoc block the tag stands in (when that comment is a string),
  its scalar properties (\<open>text\<close>, \<open>token\<close>, \<open>isTypeOnly\<close>, \<open>fileName\<close>) and its child nodes
  under the names of their properties, in the order in which \<open>ts.forEachChild\<close> visits
  them. The parser itself is the compiler's and is not modelled. A property that the
  compiler's types make mandatory is read as the empty text where a tree lacks it.
\<close>

datatype ts_node =
  TsNode (kind: string) (kindName: string) (isToken: bool) (canHaveModifiers: bool)
    (getText: string)
    (jsDocTagComments: "string option list") (attrs: "(string \<times> string) list")
    (props: "(string \<times> ts_node) list")

definition forEachChild :: "ts_node \<Rightarrow> ts_node list" where
  "forEachChild node = map snd (props node)"

definition child_of :: "ts_node \<Rightarrow> string \<Rightarrow> ts_node option" where
  "child_of node l = map_of (props node) l"

definition children_of :: "ts_node \<Rightarrow> string \<Rightarrow> ts_node list" where
  "children_of node l = map snd (filter (\<lambda>p. fst p = l) (props node))"

definition attr :: "ts_node \<Rightarrow> string \<Rightarrow> string option" where
  "attr node l = map_of (attrs node) l"

definition text_of :: "ts_node option \<Rightarrow> string" where
  "text_of n = (case n of None \<Rightarrow> [] | Some c \<Rightarrow> getText c)"

definition toLowerCase :: "string \<Rightarrow> string" where
  "toLowerCase s =
     map (\<lambda>c. let n = (of_char c :: nat) in if 65 \<le> n \<and> n \<le> 90 then char_of (n + 32) else c) s"

definition strip_quotes :: "string \<Rightarrow> string" where
  "strip_quotes s = filter (\<lambda>c. c \<noteq> CHR 0x27 \<and> c \<noteq> CHR 0x22) s"

definition strip_ts_suffix :: "string \<Rightarrow> string" where
  "strip_ts_suffix s =
     (if suffix ''.tsx'' s then take (length s - 4) s
      else if suffix ''.ts'' s then take (length s - 3) s
      else s)"

definition keep :: "'a option \<Rightarrow> 'a list" where
  "keep x = (case x of None \<Rightarrow> [] | Some v \<Rightarrow> [v])"

datatype parameter = Parameter string string bool

datatype func_signature = Signature "parameter list" string

datatype js_value = VString string | VNumber string | VBoolean bool

datatype imported_element = ImportedElement string "string option" "bool option" "bool option"

datatype exported_element = ExportedElement "string option" "string option" "string option"

record llm_fields =
  type :: string
  name :: "string option"
  jsDoc :: "string option"
  modifiers :: "string list option"
  signature :: "func_signature option"
  inheritsFrom :: "string option"
  implements :: "string list option"
  dataType :: "string option"
  val :: "js_value option"
  assignedFromExpression :: "string option"
  moduleSpecifier :: "string option"
  importedElements :: "imported_element list option"
  exportedElements :: "exported_element list option"

datatype LlmAstNode =
  LlmAstNode (fields: llm_fields) (logicFlow: "LlmAstNode list option")
    (children: "LlmAstNode list option")

definition blank :: "string \<Rightarrow> llm_fields" where
  "blank t =
     \<lparr>type = t, name = None, jsDoc = None, modifiers = None, signature = None,
      inheritsFrom = None, implements = None, dataType = None, val = None,
      assignedFromExpression = None, moduleSpecifier = None, importedElements = None,
      exportedElements = None\<rparr>"

definition getJSDoc :: "ts_node \<Rightarrow> string option" where
  "getJSDoc node =
     (let comments = concat (map keep (jsDocTagComments node))
      in if length comments > 0 then Some (join_with [CHR 0x0A] comments) else None)"

definition getModifiers :: "ts_node \<Rightarrow> string list" where
  \<comment> \<open>\<open>ts.getModifiers\<close> leaves the decorators out.\<close>
  "getModifiers node =
     (if canHaveModifiers node then
        map (\<lambda>m. replace_first ''keyword'' [] (toLowerCase (kindName m)))
          (filter (\<lambda>m. kind m \<noteq> ''Decorator'') (children_of node ''modifiers''))
      else [])"

definition getTypeString :: "ts_node option \<Rightarrow> string" where
  "getTypeString typeNode = (case typeNode of None \<Rightarrow> ''any'' | Some t \<Rightarrow> getText t)"

definition parameter_of :: "ts_node \<Rightarrow> parameter" where
  "parameter_of param =
     Parameter (text_of (child_of param ''name'')) (getTypeString (child_of param ''type''))
       (child_of param ''questionToken'' \<noteq> None)"

definition literal_value :: "ts_node \<Rightarrow> js_value option" where
  "literal_value init =
     (if kind init = ''StringLiteral'' then Some (VString (case attr init ''text'' of None \<Rightarrow> [] | Some t \<Rightarrow> t))
      else if kind init = ''NumericLiteral'' then Some (VNumber (case attr init ''text'' of None \<Rightarrow> [] | Some t \<Rightarrow> t))
      else if kind init = ''TrueKeyword'' then Some (VBoolean True)
      else if kind init = ''FalseKeyword'' then Some (VBoolean False)
      else None)"

definition heritage :: "ts_node \<Rightarrow> (string \<times> string) list" where
  "heritage classDecl =
     concat (map (\<lambda>clause. map (\<lambda>t. (case attr clause ''token'' of None \<Rightarrow> [] | Some k \<Rightarrow> k,
                                       text_of (child_of t ''expression'')))
                            (children_of clause ''types''))
                 (children_of classDecl ''heritageClauses''))"

function processNode :: "string \<Rightarrow> ts_node \<Rightarrow> LlmAstNode option"
  and processFunctionLogicNode :: "string \<Rightarrow> ts_node \<Rightarrow> LlmAstNode option"
where
  "processNode fileName node =
     (if isToken node \<or> kind node = ''MissingDeclaration'' \<or> kind node = ''CommaListExpression''
      then None
      else
        let nodeRep = (blank ''Unknown'')\<lparr>jsDoc := getJSDoc node, modifiers := Some (getModifiers node)\<rparr>
        in
        if kind node = ''SourceFile'' then
          Some (LlmAstNode (nodeRep\<lparr>type := ''Module'', name := Some (strip_ts_suffix fileName)\<rparr>) None
                  (Some (concat (map (\<lambda>c. keep (processNode fileName c)) (forEachChild node)))))
        else if kind node = ''ImportDeclaration'' then
          Some (LlmAstNode
            (nodeRep\<lparr>type := ''Import'',
               moduleSpecifier := Some (strip_quotes (text_of (child_of node ''moduleSpecifier''))),
               importedElements := Some
                 (case child_of node ''importClause'' of
                    None \<Rightarrow> []
                  | Some clause \<Rightarrow>
                      (case child_of clause ''name'' of
                         None \<Rightarrow> []
                       | Some nm \<Rightarrow> [ImportedElement (getText nm) None (Some True) None])
                      @ (case child_of clause ''namedBindings'' of
                           None \<Rightarrow> []
                         | Some nb \<Rightarrow>
                             if kind nb = ''NamedImports'' then
                               map (\<lambda>element.
                                      ImportedElement (text_of (child_of element ''name''))
                                        (map_option getText (child_of element ''propertyName'')) None None)
                                 (children_of nb ''elements'')
                             else if kind nb = ''NamespaceImport'' then
                               [ImportedElement (text_of (child_of nb ''name'')) None None (Some True)]
                             else []))\<rparr>)
            None None)
        else if kind node = ''ExportDeclaration'' then
          (let spec = map_option (\<lambda>m. strip_quotes (getText m)) (child_of node ''moduleSpecifier'')
           in Some (LlmAstNode
            (nodeRep\<lparr>type := ''Export'',
               moduleSpecifier := spec,
               modifiers := (if attr node ''isTypeOnly'' = Some ''true''
                             then Some (getModifiers node @ [''typeOnly''])
                             else Some (getModifiers node)),
               exportedElements := Some
                 (case child_of node ''exportClause'' of
                    Some clause \<Rightarrow>
                      if kind clause = ''NamedExports'' then
                        map (\<lambda>element.
                               ExportedElement (Some (text_of (child_of element ''name'')))
                                 (map_option getText (child_of element ''propertyName'')) spec)
                          (children_of clause ''elements'')
                      else []
                  | None \<Rightarrow>
                      if child_of node ''moduleSpecifier'' \<noteq> None then [ExportedElement (Some ''*'') None spec]
                      else [])\<rparr>)
            None None))
        else if kind node = ''FunctionDeclaration'' \<or> kind node = ''MethodDeclaration''
                \<or> kind node = ''ArrowFunction'' then
          Some (LlmAstNode
            (nodeRep\<lparr>type := (if kind node = ''FunctionDeclaration'' then ''Function''
                               else if kind node = ''MethodDeclaration'' then ''Method''
                               else ''ArrowFunction''),
               name := map_option getText (child_of node ''name''),
               modifiers := Some (getModifiers node),
               signature := Some (Signature (map parameter_of (children_of node ''parameters''))
                                   (getTypeString (child_of node ''type'')))\<rparr>)
            (case child_of node ''body'' of
               None \<Rightarrow> None
             | Some body \<Rightarrow>
                 Some (concat (map (\<lambda>c. keep (processFunctionLogicNode fileName c)) (forEachChild body))))
            None)
        else if kind node = ''ClassDeclaration'' then
          Some (LlmAstNode
            (nodeRep\<lparr>type := ''Class'',
               name := map_option getText (child_of node ''name''),
               modifiers := Some (getModifiers node),
               inheritsFrom :=
                 (case filter (\<lambda>h. fst h = ''ExtendsKeyword'') (heritage node) of
                    [] \<Rightarrow> None
                  | hs \<Rightarrow> Some (snd (last hs))),
               implements :=
                 (case filter (\<lambda>h. fst h = ''ImplementsKeyword'') (heritage node) of
                    [] \<Rightarrow> None
                  | hs \<Rightarrow> Some (map snd hs))\<rparr>)
            None
            (Some (concat (map (\<lambda>c. keep (processNode fileName c)) (children_of node ''members'')))))
        else if kind node = ''PropertyDeclaration'' \<or> kind node = ''PropertySignature'' then
          (let rep1 = nodeRep\<lparr>type := (if kind node = ''PropertyDeclaration'' then ''Property''
                                        else ''PropertySignature''),
                        name := Some (text_of (child_of node ''name'')),
                        dataType := Some (getTypeString (child_of node ''type'')),
                        modifiers := Some (getModifiers node)\<rparr>
           in Some (LlmAstNode
                (case (if kind node = ''PropertyDeclaration'' then child_of node ''initializer'' else None) of
                   None \<Rightarrow> rep1
                 | Some init \<Rightarrow>
                     (case literal_value init of
                        Some v \<Rightarrow> rep1\<lparr>val := Some v\<rparr>
                      | None \<Rightarrow> rep1\<lparr>assignedFromExpression := Some (getText init)\<rparr>))
                None None))
        else if kind node = ''Constructor'' then
          Some (LlmAstNode
            (nodeRep\<lparr>type := ''Constructor'',
               modifiers := Some (getModifiers node),
               signature := Some (Signature (map parameter_of (children_of node ''parameters'')) ''void'')\<rparr>)
            (case child_of node ''body'' of
               None \<Rightarrow> None
             | Some body \<Rightarrow>
                 Some (concat (map (\<lambda>c. keep (processFunctionLogicNode fileName c)) (forEachChild body))))
            None)
        else if kind node = ''InterfaceDeclaration'' then
          Some (LlmAstNode
            (nodeRep\<lparr>type := ''Interface'',
               name := Some (text_of (child_of node ''name'')),
               modifiers := Some (getModifiers node)\<rparr>)
            None
            (Some (concat (map (\<lambda>c. keep (processNode fileName c)) (children_of node ''members'')))))
        else if kind node = ''TypeAliasDeclaration'' then
          Some (LlmAstNode
            (nodeRep\<lparr>type := ''TypeAlias'',
               name := Some (text_of (child_of node ''name'')),
               dataType := Some (getTypeString (child_of node ''type'')),
               modifiers := Some (getModifiers node)\<rparr>)
            None None)
        else if kind node = ''EnumDeclaration'' then
          Some (LlmAstNode
            (nodeRep\<lparr>type := ''Enum'',
               name := Some (text_of (child_of node ''name'')),
               modifiers := Some (getModifiers node)\<rparr>)
            None
            (Some (map (\<lambda>member.
                          LlmAstNode
                            ((blank ''EnumMember'')
                               \<lparr>name := Some (text_of (child_of member ''name'')),
                                val := map_option (\<lambda>i. VString (getText i)) (child_of member ''initializer'')\<rparr>)
                            None None)
                     (children_of node ''members''))))
        else if kind node = ''VariableStatement'' then
          Some (LlmAstNode
            (nodeRep\<lparr>type := ''VariableDeclarationGroup'', modifiers := Some (getModifiers node)\<rparr>)
            None
            (Some
              (case child_of node ''declarationList'' of
                 None \<Rightarrow> []
               | Some declarationList \<Rightarrow>
                   concat (map
                     (\<lambda>declNode.
                        if kind declNode = ''VariableDeclaration'' then
                          (let varNode = (blank ''Variable'')
                                 \<lparr>name := Some (text_of (child_of declNode ''name'')),
                                  dataType := Some (getTypeString (child_of declNode ''type''))\<rparr>
                           in case child_of declNode ''initializer'' of
                                None \<Rightarrow> [LlmAstNode varNode None None]
                              | Some init \<Rightarrow>
                                  (case literal_value init of
                                     Some v \<Rightarrow> [LlmAstNode (varNode\<lparr>val := Some v\<rparr>) None None]
                                   | None \<Rightarrow>
                                       if kind init = ''ArrowFunction'' then
                                         (case processNode fileName init of
                                            Some (LlmAstNode f lf ch) \<Rightarrow>
                                              [LlmAstNode
                                                 (f\<lparr>name := name varNode,
                                                    modifiers := Some (getModifiers node
                                                       @ (case modifiers f of None \<Rightarrow> [] | Some ms \<Rightarrow> ms))\<rparr>)
                                                 lf ch]
                                          | None \<Rightarrow> [LlmAstNode varNode None None])
                                       else
                                         [LlmAstNode
                                            (varNode\<lparr>assignedFromExpression := Some (getText init)\<rparr>)
                                            None None]))
                        else [])
                     (forEachChild declarationList)))))
        else
          (let children = concat (map (\<lambda>c. keep (processNode fileName c)) (forEachChild node))
           in if children \<noteq> [] then
                Some (LlmAstNode (nodeRep\<lparr>type := ''GenericContainer ('' @ kindName node @ '')''\<rparr>)
                        None (Some children))
              else None))"
| "processFunctionLogicNode fileName node =
     (if kind node = ''IfStatement'' then
        Some (LlmAstNode
          ((blank ''IfStatement'')\<lparr>name := Some (''if ('' @ text_of (child_of node ''expression'') @ '')'')\<rparr>)
          None
          (Some
            ((case child_of node ''thenStatement'' of
                None \<Rightarrow> []
              | Some thenStatement \<Rightarrow>
                  (case processFunctionLogicNode fileName thenStatement of
                     None \<Rightarrow> []
                   | Some thenBlock \<Rightarrow> [LlmAstNode (blank ''ThenBlock'') None (Some [thenBlock])]))
             @ (case child_of node ''elseStatement'' of
                  None \<Rightarrow> []
                | Some elseStatement \<Rightarrow>
                    (case processFunctionLogicNode fileName elseStatement of
                       None \<Rightarrow> []
                     | Some elseBlock \<Rightarrow> [LlmAstNode (blank ''ElseBlock'') None (Some [elseBlock])])))))
      else if kind node = ''ReturnStatement'' then
        Some (LlmAstNode
          ((blank ''ReturnStatement'')
             \<lparr>val := Some (VString (case child_of node ''expression'' of
                                       None \<Rightarrow> ''void''
                                     | Some e \<Rightarrow> getText e))\<rparr>)
          None None)
      else if kind node = ''CallExpression'' then
        Some (LlmAstNode
          ((blank ''FunctionCall'')\<lparr>name := Some (text_of (child_of node ''expression''))\<rparr>)
          None
          (Some (map (\<lambda>arg. LlmAstNode ((blank ''Argument'')\<lparr>val := Some (VString (getText arg))\<rparr>) None None)
                   (children_of node ''arguments''))))
      else if kind node = ''ExpressionStatement'' then
        (case child_of node ''expression'' of
           None \<Rightarrow> None
         | Some e \<Rightarrow> processFunctionLogicNode fileName e)
      else if kind node = ''Block'' then
        (let blockChildren = concat (map (\<lambda>c. keep (processFunctionLogicNode fileName c)) (forEachChild node))
         in if length blockChildren > 0 then Some (LlmAstNode (blank ''Block'') None (Some blockChildren))
            else None)
      else if kind node = ''ForStatement'' \<or> kind node = ''WhileStatement''
              \<or> kind node = ''SwitchStatement'' \<or> kind node = ''TryStatement'' then
        (let childrenLogic = concat (map (\<lambda>c. keep (processFunctionLogicNode fileName c)) (forEachChild node))
         in Some (LlmAstNode (blank (kindName node)) None
                    (if length childrenLogic > 0 then Some childrenLogic else None)))
      else if kind node = ''VariableStatement'' \<or> kind node = ''VariableDeclarationList''
              \<or> kind node = ''VariableDeclaration'' then
        (case processNode fileName node of
           None \<Rightarrow> None
         | Some varDeclarationNode \<Rightarrow>
             if type (fields varDeclarationNode) = ''Variable''
                \<or> type (fields varDeclarationNode) = ''VariableDeclarationGroup''
             then Some varDeclarationNode else None)
      else
        (let nestedLogicChildren =
               concat (map (\<lambda>c. keep (processFunctionLogicNode fileName c)) (forEachChild node))
         in if nestedLogicChildren \<noteq> [] then
              Some (LlmAstNode
                ((blank (''NestedLogic ('' @ kindName node @ '')''))\<lparr>val := Some (VString (getText node))\<rparr>)
                None (Some nestedLogicChildren))
            else None))"
  by pat_completeness auto
termination
proof -
  have size_props: "size c < Suc (size_list (size_prod (\<lambda>_. 0) size) ps)"
    if "(l, c) \<in> set ps" for l c and ps :: "(string \<times> ts_node) list"
    using that by (induction ps) auto
  have size_forEachChild: "size c < size n" if "c \<in> set (forEachChild n)" for c n
    using that by (cases n) (auto simp: forEachChild_def dest: size_props)
  have size_child_of: "size c < size n" if "child_of n l = Some c" for c n l
    using that by (cases n) (auto simp: child_of_def dest!: map_of_SomeD size_props)
  have size_children_of: "size c < size n" if "c \<in> set (children_of n l)" for c n l
    using that by (cases n) (auto simp: children_of_def dest: size_props)
  show ?thesis
    by (relation "measure (\<lambda>x. case x of Inl (f, n) \<Rightarrow> 2 * size n | Inr (f, n) \<Rightarrow> 2 * size n + 1)")
       (auto dest!: size_forEachChild size_child_of size_children_of)
qed

definition parseTypeScriptApiAndStructure :: "ts_node \<Rightarrow> LlmAstNode list option" where
  \<comment> \<open>The children of the module node; the text \<open>JSON.stringify\<close> makes of them is not
      modelled.\<close>
  "parseTypeScriptApiAndStructure sourceFile =
     (case processNode (case attr sourceFile ''fileName'' of None \<Rightarrow> [] | Some f \<Rightarrow> f) sourceFile of
        None \<Rightarrow> None
      | Some rootNodes \<Rightarrow> children rootNodes)"

fun subnodes :: "LlmAstNode \<Rightarrow> LlmAstNode list" where
  \<comment> \<open>The nodes below a node of the summary, through \<open>children\<close>.\<close>
  "subnodes (LlmAstNode f lf ch) =
     concat (map (\<lambda>c. c # subnodes c) (case ch of None \<Rightarrow> [] | Some cs \<Rightarrow> cs))"

section \<open>Source texts of the specification, as syntax trees\<close>

definition return_of :: "string \<Rightarrow> ts_node \<Rightarrow> bool" where
  \<comment> \<open>The statement \<open>return t;\<close>\<close>
  "return_of t r \<longleftrightarrow>
     kind r = ''ReturnStatement'' \<and> map_option getText (child_of r ''expression'') = Some t"

definition block_return_of :: "string \<Rightarrow> ts_node \<Rightarrow> bool" where
  \<comment> \<open>The block \<open>{ return t; }\<close>\<close>
  "block_return_of t b \<longleftrightarrow>
     kind b = ''Block'' \<and> (case forEachChild b of [r] \<Rightarrow> return_of t r | _ \<Rightarrow> False)"

definition if_x_return_1_else_2 :: "ts_node \<Rightarrow> bool" where
  \<comment> \<open>The statement \<open>if (x) { return 1; } else { return 2; }\<close>\<close>
  "if_x_return_1_else_2 s \<longleftrightarrow>
     kind s = ''IfStatement''
     \<and> map_option getText (child_of s ''expression'') = Some ''x''
     \<and> (case child_of s ''thenStatement'' of None \<Rightarrow> False | Some b \<Rightarrow> block_return_of ''1'' b)
     \<and> (case child_of s ''elseStatement'' of None \<Rightarrow> False | Some b \<Rightarrow> block_return_of ''2'' b)"

definition import_foo_bar_as_baz :: "ts_node \<Rightarrow> bool" where
  \<comment> \<open>The declaration \<open>import { Foo, Bar as Baz } from "./mod"\<close>\<close>
  "import_foo_bar_as_baz d \<longleftrightarrow>
     kind d = ''ImportDeclaration'' \<and> \<not> isToken d
     \<and> map_option getText (child_of d ''moduleSpecifier'') = Some ([CHR 0x22] @ ''./mod'' @ [CHR 0x22])
     \<and> (case child_of d ''importClause'' of
          None \<Rightarrow> False
        | Some clause \<Rightarrow>
            child_of clause ''name'' = None
            \<and> (case child_of clause ''namedBindings'' of
                 None \<Rightarrow> False
               | Some nb \<Rightarrow>
                   kind nb = ''NamedImports''
                   \<and> map (\<lambda>e. (text_of (child_of e ''name''), map_option getText (child_of e ''propertyName'')))
                         (children_of nb ''elements'')
                       = [(''Foo'', None), (''Baz'', Some ''Bar'')]))"

definition token :: "string \<Rightarrow> string \<Rightarrow> ts_node" where
  "token k t = TsNode k k True False t [] [(''text'', t)] []"

definition syntax_node :: "string \<Rightarrow> string \<Rightarrow> (string \<times> ts_node) list \<Rightarrow> ts_node" where
  \<comment> \<open>A node without JSDoc; of the kinds used below, the declarations and the parameters
      can have modifiers.\<close>
  "syntax_node k t ps =
     TsNode k k False (k \<in> set [''FunctionDeclaration'', ''ImportDeclaration'', ''Parameter'']) t [] [] ps"

definition example_if :: ts_node where
  "example_if =
     syntax_node ''IfStatement'' ''if (x) { return 1; } else { return 2; }''
       [(''expression'', token ''Identifier'' ''x''),
        (''thenStatement'',
           syntax_node ''Block'' ''{ return 1; }''
             [(''statements'',
                 syntax_node ''ReturnStatement'' ''return 1;''
                   [(''expression'', token ''NumericLiteral'' ''1'')])]),
        (''elseStatement'',
           syntax_node ''Block'' ''{ return 2; }''
             [(''statements'',
                 syntax_node ''ReturnStatement'' ''return 2;''
                   [(''expression'', token ''NumericLiteral'' ''2'')])])]"

definition example_function :: ts_node where
  "example_function =
     syntax_node ''FunctionDeclaration'' ''function f(x) { if (x) { return 1; } else { return 2; } }''
       [(''name'', token ''Identifier'' ''f''),
        (''parameters'', syntax_node ''Parameter'' ''x'' [(''name'', token ''Identifier'' ''x'')]),
        (''body'', syntax_node ''Block'' ''{ if (x) { return 1; } else { return 2; } }''
                     [(''statements'', example_if)])]"

definition example_import :: ts_node where
  "example_import =
     syntax_node ''ImportDeclaration'' (''import { Foo, Bar as Baz } from '' @ [CHR 0x22] @ ''./mod'' @ [CHR 0x22])
       [(''importClause'',
           syntax_node ''ImportClause'' ''{ Foo, Bar as Baz }''
             [(''namedBindings'',
                 syntax_node ''NamedImports'' ''{ Foo, Bar as Baz }''
                   [(''elements'', syntax_node ''ImportSpecifier'' ''Foo'' [(''name'', token ''Identifier'' ''Foo'')]),
                    (''elements'', syntax_node ''ImportSpecifier'' ''Bar as Baz''
                                    [(''propertyName'', token ''Identifier'' ''Bar''),
                                     (''name'', token ''Identifier'' ''Baz'')])])]),
        (''moduleSpecifier'', token ''StringLiteral'' ([CHR 0x22] @ ''./mod'' @ [CHR 0x22]))]"

definition example_source :: ts_node where
  "example_source =
     TsNode ''SourceFile'' ''SourceFile'' False False [] [] [(''fileName'', ''temp.ts'')]
       [(''statements'', example_import),
        (''statements'', example_function),
        (''endOfFileToken'', token ''EndOfFileToken'' [])]"

section \<open>The listing and the fences, as the specification words them\<close>

definition accepted :: "ignore_patterns \<Rightarrow> string \<Rightarrow> bool" where
  \<comment> \<open>The path passes both tests of the callback of \<open>walkTree\<close>.\<close>
  "accepted pats k \<longleftrightarrow>
     \<not> ignored pats k \<and> \<not> js_includes k ''examples'' \<and> \<not> js_includes k ''example''
     \<and> \<not> js_includes k ''tests'' \<and> \<not> js_includes k ''test''"

definition path_depth :: "string \<Rightarrow> nat" where
  \<comment> \<open>The depth of a path: the number of separators in it.\<close>
  "path_depth p = length (filter (\<lambda>c. c = CHR ''/'') p)"

definition annotation :: "string \<Rightarrow> string" where
  "annotation t =
     (if t = ''tree'' then '' (directory)'' else if t = ''blob'' then '' (file)'' else '' (unknown)'')"

definition listing_line :: "git_entry \<Rightarrow> string" where
  \<comment> \<open>One line of the listing: two spaces per level, the path and its annotation.\<close>
  "listing_line e =
     replicate (2 * path_depth (fullpath e)) CHR '' '' @ ''- '' @ fullpath e
       @ annotation (etype e) @ [CHR 0x0A]"

definition fenced :: "string \<Rightarrow> string \<Rightarrow> string" where
  \<comment> \<open>The text \<open>raw\<close> between two copies of the delimiter \<open>fence\<close>, each on its own line.\<close>
  "fenced fence raw = fence @ [CHR 0x0A] @ raw @ [CHR 0x0A] @ fence"

definition has_component :: "string \<Rightarrow> string \<Rightarrow> bool" where
  \<comment> \<open>One of the portions of the path between its separators is \<open>s\<close>.\<close>
  "has_component P s \<longleftrightarrow> s \<in> set (split_on CHR ''/'' P)"

definition extracted_from :: "ignore_patterns \<Rightarrow> string \<Rightarrow> git_entry \<Rightarrow> string \<times> FileContent \<Rightarrow> bool" where
  \<comment> \<open>The pair \<open>x\<close> is what the callback of \<open>walkTree\<close> stores for some readable blob of
      the tree that passes the filter.\<close>
  "extracted_from pats cur root x \<longleftrightarrow>
     (\<exists>entry raw. entry \<in> set (entries_of root) \<and> fullpath entry \<noteq> []
        \<and> accepted pats (fullPath_of cur (fullpath entry))
        \<and> etype entry = ''blob'' \<and> econtent entry = Inr raw
        \<and> x = (fullPath_of cur (fullpath entry),
               \<lparr>path = fullPath_of cur (fullpath entry),
                content = addMarkdownPrefix (fullpath entry) @ raw @ addMarkdownSuffix (fullpath entry)\<rparr>))"

section \<open>The pending walks of the extraction\<close>

definition pending :: "'s thread list \<Rightarrow> git_entry list" where
  \<comment> \<open>The entries whose callbacks have not finished: those of the pending walks.\<close>
  "pending threads =
     concat (map (\<lambda>t. case t of Start e \<Rightarrow> entries_of e | Resume e k \<Rightarrow> entries_of e) threads)"

definition unreadable :: "ignore_patterns \<Rightarrow> string \<Rightarrow> git_entry \<Rightarrow> bool" where
  \<comment> \<open>A blob that passes the filter and whose content cannot be read.\<close>
  "unreadable pats cur e \<longleftrightarrow>
     fullpath e \<noteq> [] \<and> accepted pats (fullPath_of cur (fullpath e)) \<and> etype e = ''blob''
     \<and> isl (econtent e)"

definition extractable :: "ignore_patterns \<Rightarrow> string \<Rightarrow> git_entry \<Rightarrow> bool" where
  \<comment> \<open>A blob that passes the filter and whose content can be read.\<close>
  "extractable pats cur e \<longleftrightarrow>
     fullpath e \<noteq> [] \<and> accepted pats (fullPath_of cur (fullpath e)) \<and> etype e = ''blob''
     \<and> \<not> isl (econtent e)"

definition reading :: "ignore_patterns \<Rightarrow> string \<Rightarrow> walk_state thread \<Rightarrow> bool" where
  \<comment> \<open>A walk that is resumed is one that \<open>walkTree\<close> suspended at \<open>entry.content()\<close>.\<close>
  "reading pats cur t \<longleftrightarrow>
     (case t of
        Start e \<Rightarrow> True
      | Resume e k \<Rightarrow>
          fullpath e \<noteq> [] \<and> accepted pats (fullPath_of cur (fullpath e)) \<and> etype e = ''blob''
          \<and> k = walkTree_content (fullPath_of cur (fullpath e)) (fullpath e) e)"

section \<open>Example repositories\<close>

text \<open>The entries of each directory stand in the order of their names, as git keeps them.\<close>

definition blob_entry :: "string \<Rightarrow> string \<Rightarrow> git_entry" where
  "blob_entry p txt = GitEntry p ''blob'' (Inr txt) []"

definition repo_of :: "git_entry \<Rightarrow> repo" where
  \<comment> \<open>A clone whose \<open>HEAD\<close> is the tree \<open>root\<close> and that has no other reference.\<close>
  "repo_of root =
     \<lparr>listFiles = (\<lambda>ref. if ref = ''HEAD''
                          then Inr (map fullpath (filter (\<lambda>e. etype e = ''blob'') (entries_of root)))
                          else Inl (''Could not find '' @ ref)),
      treeOf = (\<lambda>ref. if ref = ''HEAD'' then Inr root else Inr (GitEntry ''.'' ''tree'' (Inr []) []))\<rparr>"

definition world_of :: "git_entry \<Rightarrow> string option \<Rightarrow> world" where
  \<comment> \<open>The reads complete in the order in which they were started.\<close>
  "world_of root rm_outcome =
     \<lparr>mkdtemp = Inr ''/tmp/repo-clone-Ab12Cd'',
      clone = (\<lambda>_ _ _. Inr (repo_of root)),
      extraction_order = [],
      listing_order = [],
      rm_error = rm_outcome\<rparr>"

definition no_sys :: sys_state where
  "no_sys = \<lparr>tmpdirs = {}, sys_console = []\<rparr>"

definition twelve_files :: git_entry where
  "twelve_files = GitEntry ''.'' ''tree'' (Inr [])
     (map (\<lambda>n. blob_entry (n @ ''.ts'') ''x'')
        [''a'', ''b'', ''c'', ''d'', ''e'', ''f'', ''g'', ''h'', ''i'', ''j'', ''k'', ''l''])"

definition all_tested_first :: "nat list" where
  \<comment> \<open>The root, then the first segment of each of its twelve files, then the reads.\<close>
  "all_tested_first = 0 # [0, 1, 2, 3, 4, 5, 6, 7, 8, 9, 10, 11]"

definition distance_tree :: git_entry where
  "distance_tree = GitEntry ''.'' ''tree'' (Inr [])
     [GitEntry ''src'' ''tree'' (Inr []) [blob_entry ''src/distance.ts'' ''export const d = 1;'']]"

definition unreadable_tree :: git_entry where
  "unreadable_tree = GitEntry ''.'' ''tree'' (Inr [])
     [blob_entry ''b.ts'' ''let b;'',
      GitEntry ''src'' ''tree'' (Inr [])
        [GitEntry ''src/a.ts'' ''blob'' (Inl ''EIO: i/o error, read'') [],
         blob_entry ''src/c.ts'' ''let c;'']]"

definition readme_tree :: git_entry where
  "readme_tree = GitEntry ''.'' ''tree'' (Inr [])
     [blob_entry ''README.md'' ''# add'',
      blob_entry ''main.rs'' ''fn main() {}'',
      GitEntry ''src'' ''tree'' (Inr []) [blob_entry ''src/add.ts'' ''export {};''],
      GitEntry ''vendor'' ''commit'' (Inr []) []]"

definition ui_tree :: git_entry where
  "ui_tree = GitEntry ''.'' ''tree'' (Inr [])
     [GitEntry ''build'' ''tree'' (Inr []) [blob_entry ''build/quick.ts'' ''export {};''],
      GitEntry ''src'' ''tree'' (Inr [])
        [blob_entry ''src/main.ts'' ''export {};'',
         GitEntry ''src/ui'' ''tree'' (Inr []) [blob_entry ''src/ui/button.ts'' ''export {};'']]]"

definition filtered_tree :: git_entry where
  "filtered_tree = GitEntry ''.'' ''tree'' (Inr [])
     [blob_entry ''README.md'' ''# demo'',
      GitEntry ''build'' ''tree'' (Inr []) [blob_entry ''build/out.js'' ''x''],
      GitEntry ''coverage'' ''tree'' (Inr []) [blob_entry ''coverage/lcov.js'' ''x''],
      GitEntry ''dist'' ''tree'' (Inr []) [blob_entry ''dist/main.js'' ''x''],
      GitEntry ''examples'' ''tree'' (Inr []) [blob_entry ''examples/demo.ts'' ''x''],
      GitEntry ''node_modules'' ''tree'' (Inr [])
        [GitEntry ''node_modules/x'' ''tree'' (Inr []) [blob_entry ''node_modules/x/index.js'' ''x'']],
      GitEntry ''src'' ''tree'' (Inr [])
        [blob_entry ''src/main.ts'' ''x'',
         GitEntry ''src/test'' ''tree'' (Inr []) [blob_entry ''src/test/a.ts'' ''x'']]]"

definition world_clone_fails :: world where
  "world_clone_fails =
     \<lparr>mkdtemp = Inr ''/tmp/repo-clone-Ab12Cd'',
      clone = (\<lambda>_ _ _. Inl ''Could not find commit for branch: HEAD''),
      extraction_order = [],
      listing_order = [],
      rm_error = None\<rparr>"

definition empty_repo :: repo where
  \<comment> \<open>A clone with no commit: no file is listed and the tree is the empty one.\<close>
  "empty_repo = \<lparr>listFiles = (\<lambda>_. Inr []), treeOf = (\<lambda>_. Inr (GitEntry ''.'' ''tree'' (Inr []) []))\<rparr>"

definition broken_repo :: repo where
  \<comment> \<open>A clone whose object store cannot be read.\<close>
  "broken_repo =
     \<lparr>listFiles = (\<lambda>_. Inl ''EACCES: permission denied, open''),
      treeOf = (\<lambda>_. Inl ''EACCES: permission denied, open'')\<rparr>"

definition world_no_files :: world where
  "world_no_files =
     \<lparr>mkdtemp = Inr ''/tmp/repo-clone-Ab12Cd'',
      clone = (\<lambda>_ _ _. Inr empty_repo),
      extraction_order = [],
      listing_order = [],
      rm_error = None\<rparr>"

section \<open>Facts about the filter policy\<close>

lemma default_patterns:
  "parseIgnorePatterns defaultIgnorePatterns =
     PatternList [''ui'', ''node_modules/'', ''.git'', ''dist/'', ''build/'',
       ''coverage/'', ''.log$'', ''.env$'', ''.lock$'', ''.md$'', ''.min.js$'',
       ''package-lock.json'', ''.vscode'', ''.editorconfig'', ''.gitignore'',
       ''license'', ''LICENSE'', ''tsconfig.json'', ''.dockerignore'',
       ''tailwind.config.ts'']"
  by (simp add: parseIgnorePatterns_def defaultIgnorePatterns_def trim_def is_whitespace_def
      startsWith_def)

lemma supported_list:
  "split_on CHR '' '' supportedExtensions =
     [''.js'', ''.json'', ''.ts'', ''.jsx'', ''.tsx'', ''.py'', ''.java'',
      ''.cpp'', ''.rb'', ''.php'', ''.go'', ''.rs'', ''.swift'', ''.cs'']"
  by (simp add: supportedExtensions_def)

lemma ignored_default:
  "ignored (parseIgnorePatterns defaultIgnorePatterns) P \<longleftrightarrow>
     (\<exists>pat \<in> set [''ui'', ''node_modules/'', ''.git'', ''dist/'', ''build/'',
       ''coverage/'', ''.log'', ''.env'', ''.lock'', ''.md'', ''.min.js'',
       ''package-lock.json'', ''.vscode'', ''.editorconfig'', ''.gitignore'',
       ''license'', ''LICENSE'', ''tsconfig.json'', ''.dockerignore'',
       ''tailwind.config.ts'']. js_includes P pat) \<or> \<not> isSupportedExtension P"
  unfolding default_patterns ignored_def
  by (simp add: list_ex_iff) blast

lemma includes_build_ui: "js_includes P ''build'' \<Longrightarrow> js_includes P ''ui''"
proof -
  assume "js_includes P ''build''"
  then obtain a b where "P = a @ ''build'' @ b" by (auto simp: js_includes_def sublist_def)
  then have "P = (a @ ''b'') @ ''ui'' @ (''ld'' @ b)" by simp
  then show ?thesis unfolding js_includes_def sublist_def by blast
qed

section \<open>Facts about the walk\<close>

declare walk_threads.simps [simp del]

lemma length_update_le: "length (AList.update k v al) \<le> Suc (length al)"
  by (induction al) auto

lemma length_update_ge: "length al \<le> length (AList.update k v al)"
  by (induction al) auto

lemma set_update_subset: "set (AList.update k v al) \<subseteq> insert (k, v) (set al)"
  by (induction al) auto

lemma next_index_less: "n \<noteq> 0 \<Longrightarrow> next_index sched n < n"
  by (simp add: next_index_def split: list.split)

lemma replace_at_decomp:
  assumes "i < length ts"
  shows "\<exists>pre post. ts = pre @ ts ! i # post \<and> (\<forall>new. replace_at i new ts = pre @ new @ post)"
  using id_take_nth_drop[OF assms] unfolding replace_at_def by blast

lemma entries_of_eq: "entries_of e = e # concat (map entries_of (subentries e))"
  by (cases e) simp

lemma pending_Nil [simp]: "pending [] = []"
  by (simp add: pending_def)

lemma pending_Start [simp]: "pending (Start e # ts) = entries_of e @ pending ts"
  by (simp add: pending_def)

lemma pending_Resume [simp]: "pending (Resume e k # ts) = entries_of e @ pending ts"
  by (simp add: pending_def)

lemma pending_append [simp]: "pending (xs @ ys) = pending xs @ pending ys"
  by (simp add: pending_def)

lemma pending_started:
  "pending (started r e) = (if r = Null then [] else concat (map entries_of (subentries e)))"
  by (simp add: pending_def started_def comp_def)

text \<open>
  The rule for the walk: a property \<open>J\<close> of the pending walks and the state that every
  segment keeps holds when the walk ends, whatever the schedule.
\<close>

lemma walk_threads_rule:
  fixes cb :: "'s callback"
  shows "(\<And>threads s i new s'. J threads s \<Longrightarrow> i < length threads
            \<Longrightarrow> thread_step cb (threads ! i) s = (Inr new, s') \<Longrightarrow> J (replace_at i new threads) s')
     \<Longrightarrow> (\<And>threads s i err s'. J threads s \<Longrightarrow> i < length threads
            \<Longrightarrow> thread_step cb (threads ! i) s = (Inl err, s') \<Longrightarrow> Q (Some err, s'))
     \<Longrightarrow> (\<And>s. J [] s \<Longrightarrow> Q (None, s))
     \<Longrightarrow> J threads s \<Longrightarrow> Q (walk_threads cb sched threads s)"
proof (induction cb sched threads s rule: walk_threads.induct)
  case (1 cb sched threads s)
  note step = "1.prems"(1) and failure = "1.prems"(2) and fin = "1.prems"(3) and J = "1.prems"(4)
  show ?case
  proof (cases "threads = []")
    case True
    with fin J show ?thesis by (subst walk_threads.simps) simp
  next
    case False
    let ?i = "next_index sched (length threads)"
    have i: "?i < length threads" using False by (simp add: next_index_less)
    obtain x s' where st: "thread_step cb (threads ! ?i) s = (x, s')"
      by (cases "thread_step cb (threads ! ?i) s")
    show ?thesis
    proof (cases x)
      case (Inl err)
      with failure[OF J i] st have "Q (Some err, s')" by simp
      with st Inl False show ?thesis by (subst walk_threads.simps) simp
    next
      case (Inr new)
      with step[OF J i] st have "J (replace_at ?i new threads) s'" by simp
      from "1.IH"[OF False st[symmetric] Inr step failure fin this] st Inr False
      show ?thesis by (subst walk_threads.simps) simp
    qed
  qed
qed

section \<open>The segments of the callback of \<open>walkTree\<close>\<close>

lemma walkTree_map_cases:
  "(\<exists>r st'. walkTree_map pats cur p (Some e) st = (Returned r, st') \<and> r \<noteq> Null
        \<and> fileContents st' = fileContents st
        \<and> (p \<noteq> [] \<and> accepted pats (fullPath_of cur p) \<and> etype e = ''blob''
             \<longrightarrow> 11 \<le> length (fileContents st)))
   \<or> (walkTree_map pats cur p (Some e) st = (Awaiting (walkTree_content (fullPath_of cur p) p e), st)
        \<and> p \<noteq> [] \<and> accepted pats (fullPath_of cur p) \<and> etype e = ''blob''
        \<and> length (fileContents st) < 11)"
  unfolding walkTree_map_def accepted_def Let_def
  by (cases pats; auto)

lemma walkTree_step:
  assumes "reading pats cur t"
  obtains
    (skip) e r s' where "t = Start e" "r \<noteq> Null"
      "thread_step (walkTree_map pats cur) t s = (Inr (started r e), s')"
      "fileContents s' = fileContents s"
      "unreadable pats cur e \<or> extractable pats cur e \<Longrightarrow> 11 \<le> length (fileContents s)"
  | (await) e where "t = Start e"
      "thread_step (walkTree_map pats cur) t s =
         (Inr [Resume e (walkTree_content (fullPath_of cur (fullpath e)) (fullpath e) e)], s)"
      "reading pats cur (Resume e (walkTree_content (fullPath_of cur (fullpath e)) (fullpath e) e))"
      "length (fileContents s) < 11"
  | (fail) e k m where "t = Resume e k" "econtent e = Inl m" "unreadable pats cur e"
      "thread_step (walkTree_map pats cur) t s = (Inl (Error m), s)"
  | (store) e k raw where "t = Resume e k" "econtent e = Inr raw" "extractable pats cur e"
      "thread_step (walkTree_map pats cur) t s =
         (Inr (started Undefined e),
          s\<lparr>fileContents :=
              AList.update (fullPath_of cur (fullpath e))
                \<lparr>path = fullPath_of cur (fullpath e),
                 content = addMarkdownPrefix (fullpath e) @ raw @ addMarkdownSuffix (fullpath e)\<rparr>
                (fileContents s)\<rparr>)"
proof (cases t)
  case (Start e)
  from walkTree_map_cases[of pats cur "fullpath e" e s] show ?thesis
  proof (elim disjE exE conjE)
    fix r st'
    assume "walkTree_map pats cur (fullpath e) (Some e) s = (Returned r, st')" "r \<noteq> Null"
      "fileContents st' = fileContents s"
      "fullpath e \<noteq> [] \<and> accepted pats (fullPath_of cur (fullpath e)) \<and> etype e = ''blob''
         \<longrightarrow> 11 \<le> length (fileContents s)"
    then show ?thesis using Start
      by (intro skip[of e r st']) (auto simp: unreadable_def extractable_def)
  next
    assume "walkTree_map pats cur (fullpath e) (Some e) s =
              (Awaiting (walkTree_content (fullPath_of cur (fullpath e)) (fullpath e) e), s)"
      "fullpath e \<noteq> []" "accepted pats (fullPath_of cur (fullpath e))" "etype e = ''blob''"
      "length (fileContents s) < 11"
    then show ?thesis using Start
      by (intro await[of e]) (auto simp: reading_def)
  qed
next
  case (Resume e k)
  with assms have r: "fullpath e \<noteq> []" "accepted pats (fullPath_of cur (fullpath e))"
      "etype e = ''blob''" "k = walkTree_content (fullPath_of cur (fullpath e)) (fullpath e) e"
    by (simp_all add: reading_def)
  show ?thesis
  proof (cases "econtent e")
    case (Inl m)
    with r Resume show ?thesis
      by (intro fail[of e k m]) (auto simp: unreadable_def walkTree_content_def)
  next
    case (Inr raw)
    with r Resume show ?thesis
      by (intro store[of e k raw]) (auto simp: extractable_def walkTree_content_def Let_def)
  qed
qed

lemma reading_started [simp]: "t \<in> set (started r e) \<Longrightarrow> reading pats cur t"
  by (auto simp: started_def reading_def split: if_splits)

text \<open>
  What holds of the pending walks of \<open>walkTree\<close> at every moment: a walk that is resumed
  was suspended at the read of a blob that passed the filter, and every pending entry is
  an entry of the tree.
\<close>

lemma walkTree_step_pending:
  assumes "\<forall>t \<in> set threads. reading pats cur t" "set (pending threads) \<subseteq> E" "i < length threads"
    "thread_step (walkTree_map pats cur) (threads ! i) s = (Inr new, s')"
  shows "(\<forall>t \<in> set (replace_at i new threads). reading pats cur t)
       \<and> set (pending (replace_at i new threads)) \<subseteq> E"
proof -
  from replace_at_decomp[OF assms(3)] obtain pre post where
    d: "threads = pre @ threads ! i # post" "replace_at i new threads = pre @ new @ post"
    by blast
  let ?t = "threads ! i"
  from assms(1,3) have rt: "reading pats cur ?t" by simp
  from assms(1) d(1) have rest: "\<forall>t \<in> set pre \<union> set post. reading pats cur t"
    by (metis Un_iff in_set_conv_decomp set_append list.set_intros(2))
  from assms(2) d(1) have sub: "set (pending pre) \<subseteq> E" "set (pending [?t]) \<subseteq> E" "set (pending post) \<subseteq> E"
    by (metis pending_append set_append le_sup_iff append_Cons append_Nil)+
  have "(\<forall>t \<in> set new. reading pats cur t) \<and> set (pending new) \<subseteq> set (pending [?t])"
    using rt
  proof (cases rule: walkTree_step[where s = s])
    case (skip e r s'')
    with assms(4) have "new = started r e" by simp
    with skip show ?thesis by (auto simp: pending_started entries_of_eq[of e])
  next
    case (await e)
    with assms(4) show ?thesis by auto
  next
    case (fail e k m)
    with assms(4) show ?thesis by simp
  next
    case (store e k raw)
    with assms(4) have "new = started Undefined e" by simp
    with store show ?thesis by (auto simp: pending_started entries_of_eq[of e])
  qed
  with rest sub show ?thesis unfolding d(2) by auto
qed

lemma walkTree_step_entries:
  assumes "reading pats cur t" "set (pending [t]) \<subseteq> set (entries_of root)"
    "thread_step (walkTree_map pats cur) t s = (x, s')"
    "\<forall>y \<in> set (fileContents s). extracted_from pats cur root y"
  shows "\<forall>y \<in> set (fileContents s'). extracted_from pats cur root y"
  using assms(1)
proof (cases rule: walkTree_step[where s = s])
  case (skip e r s'')
  with assms(3,4) show ?thesis by simp
next
  case (await e)
  with assms(3,4) show ?thesis by simp
next
  case (fail e k m)
  with assms(3,4) show ?thesis by simp
next
  case (store e k raw)
  let ?p = "(fullPath_of cur (fullpath e),
             \<lparr>path = fullPath_of cur (fullpath e),
              content = addMarkdownPrefix (fullpath e) @ raw @ addMarkdownSuffix (fullpath e)\<rparr>)"
  from store(1) assms(2) have "e \<in> set (entries_of root)" by (simp add: entries_of_eq[of e])
  with store(2,3) have "extracted_from pats cur root ?p"
    unfolding extracted_from_def extractable_def by blast
  moreover from store(4) assms(3)
  have "set (fileContents s') \<subseteq> insert ?p (set (fileContents s))"
    using set_update_subset[of "fst ?p" "snd ?p" "fileContents s"] by auto
  ultimately show ?thesis using assms(4) by blast
qed

lemma walk_threads_entries:
  assumes "\<forall>t \<in> set threads. reading pats cur t" "set (pending threads) \<subseteq> set (entries_of root)"
    "\<forall>y \<in> set (fileContents s). extracted_from pats cur root y"
  shows "\<forall>y \<in> set (fileContents (snd (walk_threads (walkTree_map pats cur) sched threads s))).
           extracted_from pats cur root y"
proof (rule walk_threads_rule[where
      J = "\<lambda>threads s. (\<forall>t \<in> set threads. reading pats cur t)
             \<and> set (pending threads) \<subseteq> set (entries_of root)
             \<and> (\<forall>y \<in> set (fileContents s). extracted_from pats cur root y)"
      and Q = "\<lambda>r. \<forall>y \<in> set (fileContents (snd r)). extracted_from pats cur root y"])
  fix threads :: "walk_state thread list" and s i new s'
  assume J: "(\<forall>t \<in> set threads. reading pats cur t)
             \<and> set (pending threads) \<subseteq> set (entries_of root)
             \<and> (\<forall>y \<in> set (fileContents s). extracted_from pats cur root y)"
    and i: "i < length threads"
    and st: "thread_step (walkTree_map pats cur) (threads ! i) s = (Inr new, s')"
  from replace_at_decomp[OF i] obtain pre post where d: "threads = pre @ threads ! i # post" by blast
  from J d have "set (pending [threads ! i]) \<subseteq> set (entries_of root)"
    by (metis pending_append set_append le_sup_iff append_Cons append_Nil)
  with J i st have "\<forall>y \<in> set (fileContents s'). extracted_from pats cur root y"
    by (intro walkTree_step_entries[of pats cur "threads ! i" root s "Inr new" s']) auto
  with walkTree_step_pending[of threads pats cur "set (entries_of root)" i s new s'] J i st
  show "(\<forall>t \<in> set (replace_at i new threads). reading pats cur t)
             \<and> set (pending (replace_at i new threads)) \<subseteq> set (entries_of root)
             \<and> (\<forall>y \<in> set (fileContents s'). extracted_from pats cur root y)"
    by blast
next
  fix threads :: "walk_state thread list" and s i err s'
  assume J: "(\<forall>t \<in> set threads. reading pats cur t)
             \<and> set (pending threads) \<subseteq> set (entries_of root)
             \<and> (\<forall>y \<in> set (fileContents s). extracted_from pats cur root y)"
    and i: "i < length threads"
    and st: "thread_step (walkTree_map pats cur) (threads ! i) s = (Inl err, s')"
  from replace_at_decomp[OF i] obtain pre post where d: "threads = pre @ threads ! i # post" by blast
  from J d have "set (pending [threads ! i]) \<subseteq> set (entries_of root)"
    by (metis pending_append set_append le_sup_iff append_Cons append_Nil)
  with J i st have "\<forall>y \<in> set (fileContents s'). extracted_from pats cur root y"
    by (intro walkTree_step_entries[of pats cur "threads ! i" root s "Inl err" s']) auto
  then show "\<forall>y \<in> set (fileContents (snd (Some err, s'))). extracted_from pats cur root y" by simp
next
  fix s :: walk_state
  assume "(\<forall>t \<in> set ([] :: walk_state thread list). reading pats cur t)
             \<and> set (pending ([] :: walk_state thread list)) \<subseteq> set (entries_of root)
             \<and> (\<forall>y \<in> set (fileContents s). extracted_from pats cur root y)"
  then show "\<forall>y \<in> set (fileContents (snd (None :: error option, s))). extracted_from pats cur root y"
    by simp
next
  from assms show "(\<forall>t \<in> set threads. reading pats cur t)
             \<and> set (pending threads) \<subseteq> set (entries_of root)
             \<and> (\<forall>y \<in> set (fileContents s). extracted_from pats cur root y)"
    by blast
qed

lemma walkTree_entries:
  assumes "x \<in> set (fileContents (snd (walkTree sched dir ref \<lparr>fileContents = [], console = out\<rparr> pats cur)))"
  shows "\<exists>root. treeOf dir ref = Inr root \<and> extracted_from pats cur root x"
proof (cases "treeOf dir ref")
  case (Inl msg)
  with assms show ?thesis by (simp add: walkTree_def)
next
  case (Inr root)
  have "\<forall>y \<in> set (fileContents (snd (walk_threads (walkTree_map pats cur) sched [Start root]
            \<lparr>fileContents = [], console = out\<rparr>))). extracted_from pats cur root y"
    by (rule walk_threads_entries) (simp_all add: reading_def)
  with assms Inr show ?thesis by (simp add: walkTree_def walk_def)
qed

lemma getRepositoryData_success:
  assumes "fst (getRepositoryData w url headers branch s) = Inr (fc, listing)"
  shows "\<exists>d dir files st.
           mkdtemp w = Inr d \<and> clone w url headers (branch \<noteq> []) = Inr dir
         \<and> listFiles dir (if branch \<noteq> [] then branch else ''HEAD'') = Inr files \<and> files \<noteq> []
         \<and> walkTree (extraction_order w) dir branch \<lparr>fileContents = [], console = sys_console s\<rparr>
              (parseIgnorePatterns defaultIgnorePatterns) [] = (None, st)
         \<and> fc = fileContents st \<and> getRepositoryStructure (listing_order w) dir branch = Inr listing"
  using assms unfolding getRepositoryData_def getRepositoryData_try_def Let_def
  by (auto split: sum.splits prod.splits if_splits option.splits)

lemma label_nonempty: "map_of fileTypePrefixes ext = Some l \<Longrightarrow> l \<noteq> []"
  by (drule map_of_SomeD) (auto simp: fileTypePrefixes_def)

lemma fenced_content:
  "addMarkdownPrefix p @ raw @ addMarkdownSuffix p =
     (case map_of fileTypePrefixes (extname p) of
        Some label \<Rightarrow> fenced label raw
      | None \<Rightarrow> fenced ''```'' raw)"
  by (auto simp: addMarkdownPrefix_def addMarkdownSuffix_def fenced_def Let_def
           split: option.split dest: label_nonempty)

lemma keys_accepted:
  assumes "k \<in> fst ` set (fileContents (snd (walkTree sched dir ref \<lparr>fileContents = [], console = out\<rparr> pats cur)))"
  shows "accepted pats k"
proof -
  from assms obtain v where "(k, v) \<in> set (fileContents (snd (walkTree sched dir ref \<lparr>fileContents = [], console = out\<rparr> pats cur)))"
    by auto
  from walkTree_entries[OF this] show ?thesis unfolding extracted_from_def by auto
qed

section \<open>The extraction cap\<close>

text \<open>
  C1. The cap is not kept. The callback tests \<open>fileContents.size < 11\<close> before it awaits
  \<open>entry.content()\<close> and stores the file only after the read: the files of one
  directory are all tested while the map is still empty, and all of them are stored. On
  a directory of twelve supported files whose reads complete after the twelve tests,
  \<open>getRepositoryData\<close> returns twelve entries; when every read completes before the next
  file is tested it returns eleven. Both are more than ten.
\<close>

theorem cap_missed_by_pending_reads:
  "(case fst (getRepositoryData (world_of twelve_files None\<lparr>extraction_order := all_tested_first\<rparr>)
               ''https://host/o/r'' [] ''HEAD'' no_sys) of
      Inl _ \<Rightarrow> False
    | Inr (fc, _) \<Rightarrow> length fc = 12)
   \<and> (case fst (getRepositoryData (world_of twelve_files None) ''https://host/o/r'' [] ''HEAD'' no_sys) of
      Inl _ \<Rightarrow> False
    | Inr (fc, _) \<Rightarrow> length fc = 11)"
  by code_simp

theorem cap_missed_by_pending_reads_witness:
  "\<exists>tree order fc listing.
     fst (getRepositoryData (world_of tree None\<lparr>extraction_order := order\<rparr>)
            ''https://host/o/r'' [] ''HEAD'' no_sys) = Inr (fc, listing)
     \<and> 11 < length fc"
proof -
  let ?r = "fst (getRepositoryData (world_of twelve_files None\<lparr>extraction_order := all_tested_first\<rparr>)
                   ''https://host/o/r'' [] ''HEAD'' no_sys)"
  from cap_missed_by_pending_reads
  have "case ?r of Inl _ \<Rightarrow> False | Inr (fc, _) \<Rightarrow> length fc = 12" by (rule conjunct1)
  then obtain fc listing where "?r = Inr (fc, listing)" "length fc = 12"
    by (cases ?r) (simp_all split: prod.splits)
  then have "?r = Inr (fc, listing) \<and> 11 < length fc" by simp
  then show ?thesis by blast
qed

section \<open>Rejected paths\<close>

lemma split_on_nonempty: "split_on c xs \<noteq> []"
  by (induction xs) (auto split: list.split)

lemma split_on_hd: "\<exists>b. P = hd (split_on c P) @ b \<and> (b = [] \<or> hd b = c)"
proof (induction P)
  case Nil
  then show ?case by simp
next
  case (Cons x xs)
  then show ?case using split_on_nonempty[of c xs]
    by (cases "split_on c xs") auto
qed

lemma split_on_tl:
  "s \<in> set (tl (split_on c P)) \<Longrightarrow> \<exists>a b. P = a @ [c] @ s @ b \<and> (b = [] \<or> hd b = c)"
proof (induction P)
  case Nil
  then show ?case by simp
next
  case (Cons x xs)
  show ?case
  proof (cases "x = c")
    case True
    with Cons.prems have "s \<in> set (split_on c xs)" by simp
    then have "s = hd (split_on c xs) \<or> s \<in> set (tl (split_on c xs))"
      using split_on_nonempty[of c xs] by (cases "split_on c xs") auto
    then show ?thesis
    proof
      assume "s = hd (split_on c xs)"
      with split_on_hd[of xs c] obtain b where "xs = s @ b" "b = [] \<or> hd b = c" by auto
      with True have "x # xs = [] @ [c] @ s @ b" by simp
      with \<open>b = [] \<or> hd b = c\<close> show ?thesis by blast
    next
      assume "s \<in> set (tl (split_on c xs))"
      from Cons.IH[OF this] obtain a b where "xs = a @ [c] @ s @ b" "b = [] \<or> hd b = c" by auto
      then have "x # xs = (x # a) @ [c] @ s @ b" by simp
      with \<open>b = [] \<or> hd b = c\<close> show ?thesis by blast
    qed
  next
    case False
    with Cons.prems have "s \<in> set (tl (split_on c xs))"
      using split_on_nonempty[of c xs] by (cases "split_on c xs") auto
    from Cons.IH[OF this] obtain a b where "xs = a @ [c] @ s @ b" "b = [] \<or> hd b = c" by auto
    then have "x # xs = (x # a) @ [c] @ s @ b" by simp
    with \<open>b = [] \<or> hd b = c\<close> show ?thesis by blast
  qed
qed

lemma component_position:
  assumes "has_component P s"
  shows "js_includes P (s @ ''/'') \<or> (\<exists>a. P = a @ s \<and> (a = [] \<or> last a = CHR ''/''))"
proof -
  from assms have "s = hd (split_on CHR ''/'' P) \<or> s \<in> set (tl (split_on CHR ''/'' P))"
    unfolding has_component_def using split_on_nonempty[of "CHR ''/''" P]
    by (cases "split_on CHR ''/'' P") auto
  then obtain a b where ab: "P = a @ s @ b" "a = [] \<or> last a = CHR ''/''" "b = [] \<or> hd b = CHR ''/''"
  proof
    assume "s = hd (split_on CHR ''/'' P)"
    with split_on_hd[of P "CHR ''/''"] obtain b where "P = [] @ s @ b" "b = [] \<or> hd b = CHR ''/''" by auto
    then show ?thesis using that by blast
  next
    assume "s \<in> set (tl (split_on CHR ''/'' P))"
    from split_on_tl[OF this] obtain a b where "P = (a @ ''/'') @ s @ b" "b = [] \<or> hd b = CHR ''/''" by auto
    then show ?thesis using that[of "a @ ''/''" b] by simp
  qed
  show ?thesis
  proof (cases b)
    case Nil
    with ab show ?thesis by auto
  next
    case (Cons y ys)
    with ab have "P = a @ (s @ ''/'') @ ys" by simp
    then show ?thesis unfolding js_includes_def sublist_def by blast
  qed
qed

lemma extname_last_component:
  assumes "P = a @ s" "a = [] \<or> last a = CHR ''/''" "s \<noteq> []"
    "CHR ''/'' \<notin> set s" "CHR ''.'' \<notin> set s"
  shows "extname P = []"
proof -
  have 1: "dropWhile (\<lambda>c. c = CHR ''/'') (rev P) = rev P"
    using assms(1,3,4) by (cases "rev s") (auto simp: rev_eq_Cons_iff)
  have "takeWhile (\<lambda>c. c \<noteq> CHR ''/'') (rev s @ rev a) = rev s"
  proof (cases "a = []")
    case True
    with assms(4) show ?thesis by (auto simp: takeWhile_eq_all_conv)
  next
    case False
    with assms(2) have "hd (rev a) = CHR ''/''" by (simp add: hd_rev)
    with False obtain r where r: "rev a = CHR ''/'' # r" by (cases "rev a") auto
    have "takeWhile (\<lambda>c. c \<noteq> CHR ''/'') (rev s @ CHR ''/'' # r)
            = rev s @ takeWhile (\<lambda>c. c \<noteq> CHR ''/'') (CHR ''/'' # r)"
      by (rule takeWhile_append2) (use assms(4) in auto)
    then show ?thesis unfolding r by simp
  qed
  then have 2: "takeWhile (\<lambda>c. c \<noteq> CHR ''/'') (rev P) = rev s" using assms(1) by simp
  show ?thesis using assms(5) by (simp add: extname_def Let_def 1 2)
qed

lemma component_rejected:
  assumes "has_component P s" "s \<noteq> []" "CHR ''/'' \<notin> set s" "CHR ''.'' \<notin> set s"
  shows "js_includes P (s @ ''/'') \<or> extname P = []"
  using component_position[OF assms(1)] extname_last_component[OF _ _ assms(2-4)] by blast

lemma component_includes:
  assumes "has_component P s"
  shows "js_includes P s"
proof -
  from component_position[OF assms] show ?thesis
  proof
    assume "js_includes P (s @ ''/'')"
    then obtain a b where "P = a @ (s @ ''/'') @ b" unfolding js_includes_def sublist_def by blast
    then have "P = a @ s @ (''/'' @ b)" by simp
    then show ?thesis unfolding js_includes_def sublist_def by blast
  next
    assume "\<exists>a. P = a @ s \<and> (a = [] \<or> last a = CHR ''/'')"
    then obtain a where "P = a @ s @ []" by auto
    then show ?thesis unfolding js_includes_def sublist_def by blast
  qed
qed

text \<open>
  What the tests of the callback reject, in the terms of the code: the patterns are
  looked for as substrings of the path; those of \<open>node_modules\<close>, \<open>dist\<close> and \<open>coverage\<close>
  end in a slash, and a path whose last component is one of these names has no
  extension.
\<close>

lemma substring_rejected:
  assumes "js_includes P ''node_modules/'' \<or> js_includes P ''.git'' \<or> js_includes P ''dist/''
         \<or> js_includes P ''build'' \<or> js_includes P ''coverage/'' \<or> js_includes P ''examples''
         \<or> js_includes P ''example'' \<or> js_includes P ''tests'' \<or> js_includes P ''test''
         \<or> has_component P ''node_modules'' \<or> has_component P ''dist'' \<or> has_component P ''coverage''
         \<or> extname P \<notin> set [''.js'', ''.json'', ''.ts'', ''.jsx'', ''.tsx'', ''.py'', ''.java'',
                               ''.cpp'', ''.rb'', ''.php'', ''.go'', ''.rs'', ''.swift'', ''.cs'']"
  shows "P \<notin> fst ` set (fileContents (snd (walkTree sched dir ref \<lparr>fileContents = [], console = out\<rparr>
                 (parseIgnorePatterns defaultIgnorePatterns) cur)))"
proof
  assume "P \<in> fst ` set (fileContents (snd (walkTree sched dir ref \<lparr>fileContents = [], console = out\<rparr>
                 (parseIgnorePatterns defaultIgnorePatterns) cur)))"
  then have acc: "accepted (parseIgnorePatterns defaultIgnorePatterns) P" by (rule keys_accepted)
  then have "\<not> js_includes P ''ui''" "\<not> js_includes P ''node_modules/''" "\<not> js_includes P ''.git''"
      "\<not> js_includes P ''dist/''" "\<not> js_includes P ''coverage/''" "isSupportedExtension P"
    by (simp_all add: accepted_def ignored_default)
  moreover from acc have "\<not> js_includes P ''examples''" "\<not> js_includes P ''example''"
      "\<not> js_includes P ''tests''" "\<not> js_includes P ''test''"
    by (simp_all add: accepted_def)
  moreover have "has_component P ''node_modules'' \<Longrightarrow> js_includes P ''node_modules/'' \<or> extname P = []"
    using component_rejected[of P "''node_modules''"] by simp
  moreover have "has_component P ''dist'' \<Longrightarrow> js_includes P ''dist/'' \<or> extname P = []"
    using component_rejected[of P "''dist''"] by simp
  moreover have "has_component P ''coverage'' \<Longrightarrow> js_includes P ''coverage/'' \<or> extname P = []"
    using component_rejected[of P "''coverage''"] by simp
  ultimately show False
    using assms includes_build_ui[of P]
    by (auto simp: isSupportedExtension_def supported_list)
qed

text \<open>
  The names are not looked for inside a segment with the slash left out: a path that has
  \<open>dist\<close> only as a part of a segment is extracted.
\<close>

lemma dist_inside_segment_is_extracted:
  "js_includes ''src/distance.ts'' ''dist'' \<and> \<not> has_component ''src/distance.ts'' ''dist''
   \<and> ''src/distance.ts'' \<in> fst ` set (fileContents (snd (walkTree [] (repo_of distance_tree) ''HEAD''
       \<lparr>fileContents = [], console = []\<rparr> (parseIgnorePatterns defaultIgnorePatterns) [])))"
  by code_simp

text \<open>
  C2. A path is never added to the map of extracted files when one of its segments (the
  portions between the separators) is \<open>node_modules\<close>, \<open>.git\<close>, \<open>dist\<close>, \<open>build\<close>,
  \<open>coverage\<close>, \<open>examples\<close>, \<open>example\<close>, \<open>tests\<close> or \<open>test\<close>, or when its extension is not
  one of the fourteen supported ones; in whatever order the reads of the walk complete.
\<close>

theorem filter_rejects_paths:
  assumes "has_component P ''node_modules'' \<or> has_component P ''.git'' \<or> has_component P ''dist''
         \<or> has_component P ''build'' \<or> has_component P ''coverage'' \<or> has_component P ''examples''
         \<or> has_component P ''example'' \<or> has_component P ''tests'' \<or> has_component P ''test''
         \<or> extname P \<notin> set [''.js'', ''.json'', ''.ts'', ''.jsx'', ''.tsx'', ''.py'', ''.java'',
                               ''.cpp'', ''.rb'', ''.php'', ''.go'', ''.rs'', ''.swift'', ''.cs'']"
  shows "P \<notin> fst ` set (fileContents (snd (walkTree sched dir ref \<lparr>fileContents = [], console = out\<rparr>
                 (parseIgnorePatterns defaultIgnorePatterns) cur)))"
proof (rule substring_rejected)
  from assms component_includes[of P]
  show "js_includes P ''node_modules/'' \<or> js_includes P ''.git'' \<or> js_includes P ''dist/''
         \<or> js_includes P ''build'' \<or> js_includes P ''coverage/'' \<or> js_includes P ''examples''
         \<or> js_includes P ''example'' \<or> js_includes P ''tests'' \<or> js_includes P ''test''
         \<or> has_component P ''node_modules'' \<or> has_component P ''dist'' \<or> has_component P ''coverage''
         \<or> extname P \<notin> set [''.js'', ''.json'', ''.ts'', ''.jsx'', ''.tsx'', ''.py'', ''.java'',
                               ''.cpp'', ''.rb'', ''.php'', ''.go'', ''.rs'', ''.swift'', ''.cs'']"
    by blast
qed

theorem filter_rejects_paths_witness:
  "''README.md'' \<notin> fst ` set (fileContents (snd (walkTree [0, 5, 1] (repo_of filtered_tree) ''HEAD''
       \<lparr>fileContents = [], console = []\<rparr> (parseIgnorePatterns defaultIgnorePatterns) [])))
   \<and> ''build/out.js'' \<notin> fst ` set (fileContents (snd (walkTree [0, 5, 1] (repo_of filtered_tree) ''HEAD''
       \<lparr>fileContents = [], console = []\<rparr> (parseIgnorePatterns defaultIgnorePatterns) [])))
   \<and> ''coverage/lcov.js'' \<notin> fst ` set (fileContents (snd (walkTree [0, 5, 1] (repo_of filtered_tree) ''HEAD''
       \<lparr>fileContents = [], console = []\<rparr> (parseIgnorePatterns defaultIgnorePatterns) [])))
   \<and> ''dist/main.js'' \<notin> fst ` set (fileContents (snd (walkTree [0, 5, 1] (repo_of filtered_tree) ''HEAD''
       \<lparr>fileContents = [], console = []\<rparr> (parseIgnorePatterns defaultIgnorePatterns) [])))
   \<and> ''examples/demo.ts'' \<notin> fst ` set (fileContents (snd (walkTree [0, 5, 1] (repo_of filtered_tree) ''HEAD''
       \<lparr>fileContents = [], console = []\<rparr> (parseIgnorePatterns defaultIgnorePatterns) [])))
   \<and> ''node_modules/x/index.js'' \<notin> fst ` set (fileContents (snd (walkTree [0, 5, 1] (repo_of filtered_tree) ''HEAD''
       \<lparr>fileContents = [], console = []\<rparr> (parseIgnorePatterns defaultIgnorePatterns) [])))
   \<and> ''src/test/a.ts'' \<notin> fst ` set (fileContents (snd (walkTree [0, 5, 1] (repo_of filtered_tree) ''HEAD''
       \<lparr>fileContents = [], console = []\<rparr> (parseIgnorePatterns defaultIgnorePatterns) [])))
   \<and> set [''README.md'', ''build/out.js'', ''coverage/lcov.js'', ''dist/main.js'', ''examples/demo.ts'',
           ''node_modules/x/index.js'', ''src/test/a.ts'']
       \<subseteq> set (map fullpath (entries_of filtered_tree))"
proof -
  have a: "extname ''README.md'' \<notin> set [''.js'', ''.json'', ''.ts'', ''.jsx'', ''.tsx'', ''.py'', ''.java'',
                               ''.cpp'', ''.rb'', ''.php'', ''.go'', ''.rs'', ''.swift'', ''.cs'']" by code_simp
  have b: "has_component ''build/out.js'' ''build''" by code_simp
  have c: "has_component ''coverage/lcov.js'' ''coverage''" by code_simp
  have d: "has_component ''dist/main.js'' ''dist''" by code_simp
  have e: "has_component ''examples/demo.ts'' ''examples''" by code_simp
  have f: "has_component ''node_modules/x/index.js'' ''node_modules''" by code_simp
  have g: "has_component ''src/test/a.ts'' ''test''" by code_simp
  have tree: "set [''README.md'', ''build/out.js'', ''coverage/lcov.js'', ''dist/main.js'', ''examples/demo.ts'',
           ''node_modules/x/index.js'', ''src/test/a.ts'']
       \<subseteq> set (map fullpath (entries_of filtered_tree))"
    by code_simp
  have 1: "''README.md'' \<notin> fst ` set (fileContents (snd (walkTree [0, 5, 1] (repo_of filtered_tree) ''HEAD''
       \<lparr>fileContents = [], console = []\<rparr> (parseIgnorePatterns defaultIgnorePatterns) [])))"
    by (rule filter_rejects_paths) (use a in blast)
  have 2: "''build/out.js'' \<notin> fst ` set (fileContents (snd (walkTree [0, 5, 1] (repo_of filtered_tree) ''HEAD''
       \<lparr>fileContents = [], console = []\<rparr> (parseIgnorePatterns defaultIgnorePatterns) [])))"
    by (rule filter_rejects_paths) (use b in blast)
  have 3: "''coverage/lcov.js'' \<notin> fst ` set (fileContents (snd (walkTree [0, 5, 1] (repo_of filtered_tree) ''HEAD''
       \<lparr>fileContents = [], console = []\<rparr> (parseIgnorePatterns defaultIgnorePatterns) [])))"
    by (rule filter_rejects_paths) (use c in blast)
  have 4: "''dist/main.js'' \<notin> fst ` set (fileContents (snd (walkTree [0, 5, 1] (repo_of filtered_tree) ''HEAD''
       \<lparr>fileContents = [], console = []\<rparr> (parseIgnorePatterns defaultIgnorePatterns) [])))"
    by (rule filter_rejects_paths) (use d in blast)
  have 5: "''examples/demo.ts'' \<notin> fst ` set (fileContents (snd (walkTree [0, 5, 1] (repo_of filtered_tree) ''HEAD''
       \<lparr>fileContents = [], console = []\<rparr> (parseIgnorePatterns defaultIgnorePatterns) [])))"
    by (rule filter_rejects_paths) (use e in blast)
  have 6: "''node_modules/x/index.js'' \<notin> fst ` set (fileContents (snd (walkTree [0, 5, 1] (repo_of filtered_tree) ''HEAD''
       \<lparr>fileContents = [], console = []\<rparr> (parseIgnorePatterns defaultIgnorePatterns) [])))"
    by (rule filter_rejects_paths) (use f in blast)
  have 7: "''src/test/a.ts'' \<notin> fst ` set (fileContents (snd (walkTree [0, 5, 1] (repo_of filtered_tree) ''HEAD''
       \<lparr>fileContents = [], console = []\<rparr> (parseIgnorePatterns defaultIgnorePatterns) [])))"
    by (rule filter_rejects_paths) (use g in blast)
  show ?thesis
    by (rule conjI[OF 1 conjI[OF 2 conjI[OF 3 conjI[OF 4 conjI[OF 5 conjI[OF 6 conjI[OF 7 tree]]]]]]])
qed

text \<open>
  C9. A path that contains the string \<open>ui\<close> anywhere is never added to the map of
  extracted files: \<open>ui\<close> is the first default ignore pattern and the patterns are tested
  by substring inclusion. This holds in whatever order the reads of the walk complete.
\<close>

theorem ui_substring_never_extracted:
  assumes "js_includes P ''ui''"
  shows "P \<notin> fst ` set (fileContents (snd (walkTree sched dir ref \<lparr>fileContents = [], console = out\<rparr>
                 (parseIgnorePatterns defaultIgnorePatterns) cur)))"
proof
  assume "P \<in> fst ` set (fileContents (snd (walkTree sched dir ref \<lparr>fileContents = [], console = out\<rparr>
                 (parseIgnorePatterns defaultIgnorePatterns) cur)))"
  then have "accepted (parseIgnorePatterns defaultIgnorePatterns) P" by (rule keys_accepted)
  with assms show False by (simp add: accepted_def ignored_default)
qed

theorem ui_substring_never_extracted_witness:
  "''build/quick.ts'' \<notin> fst ` set (fileContents (snd (walkTree [] (repo_of ui_tree) ''HEAD''
       \<lparr>fileContents = [], console = []\<rparr> (parseIgnorePatterns defaultIgnorePatterns) [])))
   \<and> ''src/ui/button.ts'' \<notin> fst ` set (fileContents (snd (walkTree [] (repo_of ui_tree) ''HEAD''
       \<lparr>fileContents = [], console = []\<rparr> (parseIgnorePatterns defaultIgnorePatterns) [])))"
proof -
  have a: "js_includes ''build/quick.ts'' ''ui''" by code_simp
  have b: "js_includes ''src/ui/button.ts'' ''ui''" by code_simp
  show ?thesis
    using ui_substring_never_extracted[OF a] ui_substring_never_extracted[OF b] by blast
qed

section \<open>The stored content\<close>

text \<open>
  C10. Every entry of the map of extracted files is stored under the path of a blob of
  the tree, and its content is the raw text of that blob between two copies of the same
  delimiter: the label of the fence table for the extension of the path when there is
  one (so the closing delimiter is the labelled fence again), the bare fence otherwise.
\<close>

theorem extracted_content_is_fenced:
  assumes "(k, fc) \<in> set (fileContents (snd (walkTree sched dir ref \<lparr>fileContents = [], console = out\<rparr> pats [])))"
  shows "\<exists>root entry raw.
           treeOf dir ref = Inr root \<and> entry \<in> set (entries_of root) \<and> fullpath entry = k
         \<and> etype entry = ''blob'' \<and> econtent entry = Inr raw \<and> path fc = k
         \<and> content fc = (case map_of fileTypePrefixes (extname k) of
                            Some label \<Rightarrow> fenced label raw
                          | None \<Rightarrow> fenced ''```'' raw)"
proof -
  from walkTree_entries[OF assms] obtain root entry raw where
    "treeOf dir ref = Inr root" "entry \<in> set (entries_of root)" "etype entry = ''blob''"
    "econtent entry = Inr raw"
    "(k, fc) = (fullPath_of [] (fullpath entry),
               \<lparr>path = fullPath_of [] (fullpath entry),
                content = addMarkdownPrefix (fullpath entry) @ raw @ addMarkdownSuffix (fullpath entry)\<rparr>)"
    unfolding extracted_from_def by blast
  then show ?thesis
    by (intro exI[of _ root] exI[of _ entry] exI[of _ raw]) (simp add: fullPath_of_def fenced_content)
qed

theorem extracted_content_is_fenced_witness:
  "(\<exists>root entry raw.
      treeOf (repo_of readme_tree) ''HEAD'' = Inr root \<and> entry \<in> set (entries_of root)
    \<and> fullpath entry = ''src/add.ts'' \<and> etype entry = ''blob'' \<and> econtent entry = Inr raw
    \<and> path \<lparr>path = ''src/add.ts'', content = ''```typescript'' @ [CHR 0x0A] @ ''export {};'' @ [CHR 0x0A] @ ''```typescript''\<rparr> = ''src/add.ts''
    \<and> content \<lparr>path = ''src/add.ts'', content = ''```typescript'' @ [CHR 0x0A] @ ''export {};'' @ [CHR 0x0A] @ ''```typescript''\<rparr> =
        (case map_of fileTypePrefixes (extname ''src/add.ts'') of
           Some label \<Rightarrow> fenced label raw
         | None \<Rightarrow> fenced ''```'' raw))
   \<and> (\<exists>root entry raw.
      treeOf (repo_of readme_tree) ''HEAD'' = Inr root \<and> entry \<in> set (entries_of root)
    \<and> fullpath entry = ''main.rs'' \<and> etype entry = ''blob'' \<and> econtent entry = Inr raw
    \<and> path \<lparr>path = ''main.rs'', content = ''```'' @ [CHR 0x0A] @ ''fn main() {}'' @ [CHR 0x0A] @ ''```''\<rparr> = ''main.rs''
    \<and> content \<lparr>path = ''main.rs'', content = ''```'' @ [CHR 0x0A] @ ''fn main() {}'' @ [CHR 0x0A] @ ''```''\<rparr> =
        (case map_of fileTypePrefixes (extname ''main.rs'') of
           Some label \<Rightarrow> fenced label raw
         | None \<Rightarrow> fenced ''```'' raw))"
proof -
  have a: "(''src/add.ts'', \<lparr>path = ''src/add.ts'', content = ''```typescript'' @ [CHR 0x0A] @ ''export {};'' @ [CHR 0x0A] @ ''```typescript''\<rparr>)
      \<in> set (fileContents (snd (walkTree [] (repo_of readme_tree) ''HEAD''
            \<lparr>fileContents = [], console = []\<rparr> (parseIgnorePatterns defaultIgnorePatterns) [])))"
    by code_simp
  have b: "(''main.rs'', \<lparr>path = ''main.rs'', content = ''```'' @ [CHR 0x0A] @ ''fn main() {}'' @ [CHR 0x0A] @ ''```''\<rparr>)
      \<in> set (fileContents (snd (walkTree [] (repo_of readme_tree) ''HEAD''
            \<lparr>fileContents = [], console = []\<rparr> (parseIgnorePatterns defaultIgnorePatterns) [])))"
    by code_simp
  from extracted_content_is_fenced[OF a] extracted_content_is_fenced[OF b] show ?thesis by blast
qed

section \<open>The structure listing\<close>

lemma length_split_on: "length (split_on c s) = Suc (length (filter (\<lambda>x. x = c) s))"
  by (induction s) (auto split: list.split)

lemma concat_replicate_two: "concat (replicate n ''  '') = replicate (2 * n) CHR '' ''"
  by (induction n) auto

lemma getRepositoryStructure_map_line:
  "getRepositoryStructure_map (fullpath e) (Some e) acc =
     (Returned (if etype e = ''tree'' \<and> fullpath e \<noteq> [] then JsTrue else Undefined),
      acc @ (if fullpath e \<noteq> [] then listing_line e else []))"
  by (simp add: getRepositoryStructure_map_def listing_line_def annotation_def path_depth_def
      length_split_on concat_replicate_two Let_def)

lemma getRepositoryStructure_step:
  "thread_step getRepositoryStructure_map (Start e) acc =
     (Inr (map Start (subentries e)), acc @ (if fullpath e \<noteq> [] then listing_line e else []))"
  by (simp add: getRepositoryStructure_map_line started_def)

text \<open>
  The walk of the listing never suspends after it has touched the listing and never
  throws: whatever the schedule, every pending entry with a path gets its line, once.
\<close>

lemma walk_threads_structure:
  assumes "\<forall>t \<in> set threads. \<exists>e. t = Start e"
  shows "\<exists>es. mset es = mset (filter (\<lambda>e. fullpath e \<noteq> []) (pending threads))
            \<and> walk_threads getRepositoryStructure_map sched threads acc
                = (None, acc @ concat (map listing_line es))"
proof -
  define M where "M = mset (filter (\<lambda>e. fullpath e \<noteq> []) (pending threads))"
  let ?J = "\<lambda>(threads :: string thread list) l.
      (\<forall>t \<in> set threads. \<exists>e. t = Start e)
      \<and> (\<exists>es. l = acc @ concat (map listing_line es)
             \<and> mset es + mset (filter (\<lambda>e. fullpath e \<noteq> []) (pending threads)) = M)"
  let ?Q = "\<lambda>r :: error option \<times> string.
      \<exists>es. mset es = M \<and> r = (None, acc @ concat (map listing_line es))"
  have "?Q (walk_threads getRepositoryStructure_map sched threads acc)"
  proof (rule walk_threads_rule[where J = ?J and Q = ?Q])
    fix threads :: "string thread list" and l i new l'
    assume J: "?J threads l" and i: "i < length threads"
      and st: "thread_step getRepositoryStructure_map (threads ! i) l = (Inr new, l')"
    from replace_at_decomp[OF i] obtain pre post where
      d: "threads = pre @ threads ! i # post" "replace_at i new threads = pre @ new @ post"
      by blast
    from J nth_mem[OF i] obtain e where e: "threads ! i = Start e" by blast
    from J obtain es where es: "l = acc @ concat (map listing_line es)"
      "mset es + mset (filter (\<lambda>e. fullpath e \<noteq> []) (pending threads)) = M"
      by blast
    from st have "thread_step getRepositoryStructure_map (Start e) l = (Inr new, l')"
      by (simp only: e)
    then have new: "new = map Start (subentries e)"
      and l': "l' = l @ (if fullpath e \<noteq> [] then listing_line e else [])"
      unfolding getRepositoryStructure_step by simp_all
    have pn: "pending new = concat (map entries_of (subentries e))"
      unfolding new by (simp add: pending_def comp_def)
    have pt: "pending threads = pending pre @ (e # concat (map entries_of (subentries e))) @ pending post"
      by (subst d(1)) (simp add: e entries_of_eq[of e])
    have starts: "\<forall>t \<in> set (replace_at i new threads). \<exists>e. t = Start e"
    proof
      fix t assume "t \<in> set (replace_at i new threads)"
      then have "t \<in> set pre \<or> t \<in> set new \<or> t \<in> set post" unfolding d(2) by auto
      moreover have "set pre \<subseteq> set threads" "set post \<subseteq> set threads"
        by (subst d(1), auto)+
      ultimately show "\<exists>e. t = Start e" using J new by auto
    qed
    let ?es = "es @ (if fullpath e \<noteq> [] then [e] else [])"
    have "l' = acc @ concat (map listing_line ?es)" using l' es(1) by simp
    moreover have "mset ?es + mset (filter (\<lambda>e. fullpath e \<noteq> []) (pending (replace_at i new threads))) = M"
      using es(2) unfolding d(2) pt by (cases "fullpath e = []") (simp_all add: pn)
    ultimately show "?J (replace_at i new threads) l'" using starts by blast
  next
    fix threads :: "string thread list" and l i err l'
    assume J: "?J threads l" and i: "i < length threads"
      and st: "thread_step getRepositoryStructure_map (threads ! i) l = (Inl err, l')"
    from J nth_mem[OF i] obtain e where "threads ! i = Start e" by blast
    with st have "thread_step getRepositoryStructure_map (Start e) l = (Inl err, l')" by simp
    then show "?Q (Some err, l')" unfolding getRepositoryStructure_step by simp
  next
    fix l :: string
    assume "?J [] l"
    then show "?Q (None, l)" by auto
  next
    have "acc = acc @ concat (map listing_line [])" by simp
    with assms show "?J threads acc" unfolding M_def by (metis add.left_neutral mset.simps(1))
  qed
  then show ?thesis unfolding M_def by blast
qed

lemma getRepositoryStructure_listing:
  assumes "treeOf dir ref = Inr root"
  shows "\<exists>es. mset es = mset (filter (\<lambda>e. fullpath e \<noteq> []) (entries_of root))
            \<and> getRepositoryStructure sched dir ref = Inr (concat (map listing_line es))"
proof -
  from walk_threads_structure[of "[Start root]" sched "[]"]
  obtain es where "mset es = mset (filter (\<lambda>e. fullpath e \<noteq> []) (entries_of root))"
    "walk_threads getRepositoryStructure_map sched [Start root] [] = (None, concat (map listing_line es))"
    by auto
  with assms show ?thesis by (auto simp: getRepositoryStructure_def walk_def)
qed

text \<open>
  C6. The listing that \<open>getRepositoryStructure\<close> returns is made of one line for every
  entry of the tree with a path, each entry once: two spaces per level of the path, the
  path, and \<open>(directory)\<close>, \<open>(file)\<close> or \<open>(unknown)\<close>. Neither the filter nor the cap of
  the extraction is consulted, and the walk of the listing never fails. The order of the
  lines is that in which the callbacks run, which the schedule decides.
\<close>

theorem listing_has_every_entry:
  assumes "treeOf dir ref = Inr root"
  shows "\<exists>es. mset es = mset (filter (\<lambda>e. fullpath e \<noteq> []) (entries_of root))
            \<and> getRepositoryStructure sched dir ref = Inr (concat (map listing_line es))"
  using assms by (rule getRepositoryStructure_listing)

theorem listing_has_every_entry_witness:
  "(\<exists>es. mset es = mset (filter (\<lambda>e. fullpath e \<noteq> []) (entries_of readme_tree))
        \<and> getRepositoryStructure [0, 0, 0, 1] (repo_of readme_tree) ''HEAD''
            = Inr (concat (map listing_line es)))
   \<and> getRepositoryStructure [0, 0, 0, 1] (repo_of readme_tree) ''HEAD'' =
       Inr (join_with [CHR 0x0A]
         [''- . (directory)'',
          ''- README.md (file)'',
          ''- main.rs (file)'',
          ''- vendor (unknown)'',
          ''- src (directory)'',
          ''  - src/add.ts (file)'',
          []])"
proof -
  have t: "treeOf (repo_of readme_tree) ''HEAD'' = Inr readme_tree" by (simp add: repo_of_def)
  have "getRepositoryStructure [0, 0, 0, 1] (repo_of readme_tree) ''HEAD'' =
       Inr (join_with [CHR 0x0A]
         [''- . (directory)'',
          ''- README.md (file)'',
          ''- main.rs (file)'',
          ''- vendor (unknown)'',
          ''- src (directory)'',
          ''  - src/add.ts (file)'',
          []])"
    by code_simp
  with listing_has_every_entry[OF t, of "[0, 0, 0, 1]"] show ?thesis by blast
qed

section \<open>The workspace manager\<close>

lemma getRepositoryData_outcome:
  assumes "mkdtemp w = Inr d"
  shows "fst (getRepositoryData w url headers branch s) =
           (case fst (getRepositoryData_try w url headers branch (sys_console s)) of
              Inl e \<Rightarrow> Inl (Error (''Failed to get repository data: '' @ message e))
            | Inr v \<Rightarrow> Inr v)"
  using assms unfolding getRepositoryData_def Let_def
  by (simp split: sum.split prod.split option.split)

lemma getRepositoryData_try_rm:
  "getRepositoryData_try (w\<lparr>rm_error := r\<rparr>) url headers branch out =
   getRepositoryData_try w url headers branch out"
proof -
  have a: "clone (w\<lparr>rm_error := r\<rparr>) = clone w"
    "extraction_order (w\<lparr>rm_error := r\<rparr>) = extraction_order w"
    "listing_order (w\<lparr>rm_error := r\<rparr>) = listing_order w"
    by simp_all
  show ?thesis unfolding getRepositoryData_try_def a by (rule refl)
qed

text \<open>
  C3 (as amended). A failure of the clone and an empty list of files for the reference
  both reach the caller as the one generic \<open>Error\<close>, whose message is
  \<open>Failed to get repository data:\<close> followed by the message of the cause: the upstream
  message of the clone, or \<open>Could not find commit for branch:\<close> and the branch (\<open>HEAD\<close>
  when none was given). Only the text of the message tells the two apart.
\<close>

theorem failures_are_one_generic_error:
  "(mkdtemp w = Inr d \<and> clone w url headers (branch \<noteq> []) = Inl msg \<longrightarrow>
      fst (getRepositoryData w url headers branch s) =
        Inl (Error (''Failed to get repository data: '' @ msg)))
   \<and> (mkdtemp w = Inr d \<and> clone w url headers (branch \<noteq> []) = Inr dir
       \<and> listFiles dir (if branch \<noteq> [] then branch else ''HEAD'') = Inr [] \<longrightarrow>
      fst (getRepositoryData w url headers branch s) =
        Inl (Error (''Failed to get repository data: Could not find commit for branch: ''
                      @ (if branch \<noteq> [] then branch else ''HEAD''))))"
  by (simp add: getRepositoryData_outcome getRepositoryData_try_def)

theorem failures_are_one_generic_error_witness:
  "fst (getRepositoryData (world_of readme_tree None\<lparr>clone := \<lambda>_ _ _. Inl ''HTTP Error: 401 Unauthorized''\<rparr>)
          ''https://host/o/r'' [] ''main'' no_sys) =
     Inl (Error (''Failed to get repository data: '' @ ''HTTP Error: 401 Unauthorized''))
   \<and> fst (getRepositoryData world_no_files ''https://host/o/r'' [] [] no_sys) =
     Inl (Error (''Failed to get repository data: Could not find commit for branch: '' @ ''HEAD''))"
proof -
  let ?w = "world_of readme_tree None\<lparr>clone := \<lambda>_ _ _. Inl ''HTTP Error: 401 Unauthorized''\<rparr>"
  have a: "mkdtemp ?w = Inr ''/tmp/repo-clone-Ab12Cd'' \<and> clone ?w ''https://host/o/r'' [] (''main'' \<noteq> []) = Inl ''HTTP Error: 401 Unauthorized''"
    by (simp add: world_of_def)
  have b: "mkdtemp world_no_files = Inr ''/tmp/repo-clone-Ab12Cd''
      \<and> clone world_no_files ''https://host/o/r'' [] ([] \<noteq> ([]::string)) = Inr empty_repo
      \<and> listFiles empty_repo (if [] \<noteq> ([]::string) then [] else ''HEAD'') = Inr []"
    by (simp add: world_no_files_def empty_repo_def)
  show ?thesis
    using failures_are_one_generic_error[of ?w "''/tmp/repo-clone-Ab12Cd''" "''https://host/o/r''" "[]" "''main''"
        "''HTTP Error: 401 Unauthorized''" no_sys] a
      failures_are_one_generic_error[of world_no_files "''/tmp/repo-clone-Ab12Cd''" "''https://host/o/r''" "[]" "[]"
        _ no_sys empty_repo] b
    by simp
qed

text \<open>
  The claim as it was stated (the two failures give distinguishable error values) fails:
  a clone whose upstream message is \<open>Could not find commit for branch: HEAD\<close> and a clone
  that lists no file for \<open>HEAD\<close> give the same error value.
\<close>

theorem indistinguishable_failures_counterexample:
  "fst (getRepositoryData world_clone_fails ''https://host/o/r'' [] ''HEAD'' no_sys) =
   fst (getRepositoryData world_no_files ''https://host/o/r'' [] ''HEAD'' no_sys)
   \<and> isl (clone world_clone_fails ''https://host/o/r'' [] True)
   \<and> \<not> isl (clone world_no_files ''https://host/o/r'' [] True)"
  by code_simp

text \<open>
  C5. Once the temporary directory exists, every exit of \<open>getRepositoryData\<close> runs the
  removal: when the removal succeeds the directory is gone afterwards, whatever happened
  before; when it throws, one line is written to the console and the outcome of the call
  is the one it would have had anyway. When \<open>mkdtemp\<close> itself fails nothing was created
  and the state is unchanged.
\<close>

theorem cleanup_on_every_exit:
  "(mkdtemp w = Inr d \<longrightarrow>
      fst (getRepositoryData w url headers branch s)
        = fst (getRepositoryData (w\<lparr>rm_error := r\<rparr>) url headers branch s)
    \<and> (rm_error w = None \<longrightarrow> d \<notin> tmpdirs (snd (getRepositoryData w url headers branch s)))
    \<and> (\<forall>msg. rm_error w = Some msg \<longrightarrow>
          sys_console (snd (getRepositoryData w url headers branch s)) =
            sys_console (snd (getRepositoryData (w\<lparr>rm_error := None\<rparr>) url headers branch s))
              @ [''Error cleaning up temporary directory: '' @ msg]))
   \<and> (\<forall>msg. mkdtemp w = Inl msg \<longrightarrow>
          getRepositoryData w url headers branch s = (Inl (Error msg), s))"
proof -
  have 1: "fst (getRepositoryData w url headers branch s)
        = fst (getRepositoryData (w\<lparr>rm_error := r\<rparr>) url headers branch s)" if "mkdtemp w = Inr d"
    using that by (simp add: getRepositoryData_outcome getRepositoryData_try_rm)
  have 2: "d \<notin> tmpdirs (snd (getRepositoryData w url headers branch s))"
    if "mkdtemp w = Inr d" "rm_error w = None"
    using that unfolding getRepositoryData_def Let_def
    by (simp split: sum.split prod.split)
  have 3: "sys_console (snd (getRepositoryData w url headers branch s)) =
            sys_console (snd (getRepositoryData (w\<lparr>rm_error := None\<rparr>) url headers branch s))
              @ [''Error cleaning up temporary directory: '' @ msg]"
    if "mkdtemp w = Inr d" "rm_error w = Some msg" for msg
    using that unfolding getRepositoryData_def Let_def
    by (simp add: getRepositoryData_try_rm split: sum.split prod.split)
  have 4: "getRepositoryData w url headers branch s = (Inl (Error msg), s)" if "mkdtemp w = Inl msg" for msg
    using that by (simp add: getRepositoryData_def)
  from 1 2 3 4 show ?thesis by blast
qed

theorem cleanup_on_every_exit_witness:
  "fst (getRepositoryData world_clone_fails ''https://host/o/r'' [] ''HEAD'' no_sys)
     = fst (getRepositoryData (world_clone_fails\<lparr>rm_error := Some ''EBUSY''\<rparr>) ''https://host/o/r'' [] ''HEAD'' no_sys)
   \<and> ''/tmp/repo-clone-Ab12Cd'' \<notin> tmpdirs (snd (getRepositoryData world_clone_fails ''https://host/o/r'' [] ''HEAD'' no_sys))
   \<and> sys_console (snd (getRepositoryData (world_of readme_tree (Some ''EBUSY'')) ''https://host/o/r'' [] ''HEAD'' no_sys)) =
       sys_console (snd (getRepositoryData (world_of readme_tree (Some ''EBUSY'')\<lparr>rm_error := None\<rparr>) ''https://host/o/r'' [] ''HEAD'' no_sys))
         @ [''Error cleaning up temporary directory: '' @ ''EBUSY'']
   \<and> getRepositoryData (world_clone_fails\<lparr>mkdtemp := Inl ''ENOSPC''\<rparr>) ''https://host/o/r'' [] ''HEAD'' no_sys
       = (Inl (Error ''ENOSPC''), no_sys)"
proof -
  have a: "mkdtemp world_clone_fails = Inr ''/tmp/repo-clone-Ab12Cd''" "rm_error world_clone_fails = None"
    by (simp_all add: world_clone_fails_def)
  have b: "mkdtemp (world_of readme_tree (Some ''EBUSY'')) = Inr ''/tmp/repo-clone-Ab12Cd''"
    "rm_error (world_of readme_tree (Some ''EBUSY'')) = Some ''EBUSY''"
    by (simp_all add: world_of_def)
  have c: "mkdtemp (world_clone_fails\<lparr>mkdtemp := Inl ''ENOSPC''\<rparr>) = Inl ''ENOSPC''" by simp
  show ?thesis
    using cleanup_on_every_exit[of world_clone_fails "''/tmp/repo-clone-Ab12Cd''" "''https://host/o/r''" "[]" "''HEAD''" no_sys "Some ''EBUSY''"]
      cleanup_on_every_exit[of "world_of readme_tree (Some ''EBUSY'')" "''/tmp/repo-clone-Ab12Cd''" "''https://host/o/r''" "[]" "''HEAD''" no_sys None]
      cleanup_on_every_exit[of "world_clone_fails\<lparr>mkdtemp := Inl ''ENOSPC''\<rparr>" "''/tmp/repo-clone-Ab12Cd''" "''https://host/o/r''" "[]" "''HEAD''" no_sys None]
      a b c
    by blast
qed

section \<open>A blob that cannot be read\<close>

lemma error_eq: "message err = m \<Longrightarrow> err = Error m"
  by (cases err) simp

lemma pending_nth_subset:
  assumes "i < length threads"
  shows "set (pending [threads ! i]) \<subseteq> set (pending threads)"
proof -
  from replace_at_decomp[OF assms] obtain pre post where "threads = pre @ threads ! i # post"
    by blast
  then have "pending threads = pending pre @ pending [threads ! i] @ pending post"
    by (metis pending_append append_Cons append_Nil)
  then have "set (pending threads) = set (pending pre) \<union> set (pending [threads ! i]) \<union> set (pending post)"
    by (simp only: set_append Un_assoc)
  then show ?thesis by blast
qed

text \<open>
  Where an error of the walk comes from: the only segment of the callback that throws is
  the one that resumes after \<open>entry.content()\<close>, on a blob that passed the filter and
  cannot be read.
\<close>

lemma walk_threads_error_origin:
  assumes "\<forall>t \<in> set threads. reading pats cur t" "set (pending threads) \<subseteq> E"
    "fst (walk_threads (walkTree_map pats cur) sched threads s) = Some err"
  shows "\<exists>e \<in> E. unreadable pats cur e \<and> econtent e = Inl (message err)"
proof -
  let ?J = "\<lambda>(threads :: walk_state thread list) (s :: walk_state).
      (\<forall>t \<in> set threads. reading pats cur t) \<and> set (pending threads) \<subseteq> E"
  let ?Q = "\<lambda>r :: error option \<times> walk_state.
      \<forall>err. fst r = Some err \<longrightarrow> (\<exists>e \<in> E. unreadable pats cur e \<and> econtent e = Inl (message err))"
  have "?Q (walk_threads (walkTree_map pats cur) sched threads s)"
  proof (rule walk_threads_rule[where J = ?J and Q = ?Q])
    fix threads :: "walk_state thread list" and s i new s'
    assume "?J threads s" "i < length threads"
      "thread_step (walkTree_map pats cur) (threads ! i) s = (Inr new, s')"
    then show "?J (replace_at i new threads) s'"
      using walkTree_step_pending[of threads pats cur E i s new s'] by blast
  next
    fix threads :: "walk_state thread list" and s i err s'
    assume J: "?J threads s" and i: "i < length threads"
      and st: "thread_step (walkTree_map pats cur) (threads ! i) s = (Inl err, s')"
    from J i have "reading pats cur (threads ! i)" by simp
    then have "\<exists>e \<in> E. unreadable pats cur e \<and> econtent e = Inl (message err)"
    proof (cases rule: walkTree_step[where s = s])
      case (skip e r s'')
      with st show ?thesis by simp
    next
      case (await e)
      with st show ?thesis by simp
    next
      case (fail e k m)
      with pending_nth_subset[OF i] J have "e \<in> E" by (auto simp: entries_of_eq[of e])
      with fail st show ?thesis by auto
    next
      case (store e k raw)
      with st show ?thesis by simp
    qed
    then show "?Q (Some err, s')" by simp
  next
    fix s :: walk_state
    show "?Q (None, s)" by simp
  next
    from assms show "?J threads s" by blast
  qed
  with assms(3) show ?thesis by blast
qed

text \<open>
  A pending blob that passed the filter and cannot be read stops the walk, unless the
  map holds eleven entries by the time the blob is tested: the blob is then not read.
\<close>

lemma walk_threads_poison:
  assumes "\<forall>t \<in> set threads. reading pats cur t"
    "(\<exists>e \<in> set (pending threads). unreadable pats cur e) \<or> 11 \<le> length (fileContents s)"
  shows "fst (walk_threads (walkTree_map pats cur) sched threads s) \<noteq> None
       \<or> 11 \<le> length (fileContents (snd (walk_threads (walkTree_map pats cur) sched threads s)))"
proof -
  let ?J = "\<lambda>(threads :: walk_state thread list) (s :: walk_state).
      (\<forall>t \<in> set threads. reading pats cur t)
      \<and> ((\<exists>e \<in> set (pending threads). unreadable pats cur e) \<or> 11 \<le> length (fileContents s))"
  let ?Q = "\<lambda>r :: error option \<times> walk_state. fst r \<noteq> None \<or> 11 \<le> length (fileContents (snd r))"
  show ?thesis
  proof (rule walk_threads_rule[where J = ?J and Q = ?Q])
    fix threads :: "walk_state thread list" and s i new s'
    assume J: "?J threads s" and i: "i < length threads"
      and st: "thread_step (walkTree_map pats cur) (threads ! i) s = (Inr new, s')"
    from replace_at_decomp[OF i] obtain pre post where
      d: "threads = pre @ threads ! i # post" "replace_at i new threads = pre @ new @ post"
      by blast
    let ?t = "threads ! i"
    have pt: "pending threads = pending pre @ pending [?t] @ pending post"
      by (subst d(1)) (metis pending_append append_Cons append_Nil)
    from J i have rt: "reading pats cur ?t" by simp
    from J i st have r': "\<forall>t \<in> set (replace_at i new threads). reading pats cur t"
      using walkTree_step_pending[of threads pats cur UNIV i s new s'] by blast
    have keep: "length (fileContents s) \<le> length (fileContents s')
        \<and> (\<forall>e \<in> set (pending [?t]). unreadable pats cur e \<longrightarrow>
              e \<in> set (pending new) \<or> 11 \<le> length (fileContents s'))"
      using rt
    proof (cases rule: walkTree_step[where s = s])
      case (skip e r s'')
      with st have "new = started r e" "s' = s''" by simp_all
      with skip show ?thesis by (auto simp: pending_started entries_of_eq[of e])
    next
      case (await e)
      with st show ?thesis by auto
    next
      case (fail e k m)
      with st show ?thesis by simp
    next
      case (store e k raw)
      with st have "new = started Undefined e" "length (fileContents s) \<le> length (fileContents s')"
        by (auto simp: length_update_ge)
      with store show ?thesis
        by (auto simp: pending_started entries_of_eq[of e] unreadable_def extractable_def)
    qed
    from J have "(\<exists>e \<in> set (pending threads). unreadable pats cur e) \<or> 11 \<le> length (fileContents s)"
      by blast
    then have "(\<exists>e \<in> set (pending (replace_at i new threads)). unreadable pats cur e)
        \<or> 11 \<le> length (fileContents s')"
    proof
      assume "\<exists>e \<in> set (pending threads). unreadable pats cur e"
      then obtain e where e: "unreadable pats cur e"
        "e \<in> set (pending pre) \<or> e \<in> set (pending [?t]) \<or> e \<in> set (pending post)"
        unfolding pt by auto
      with keep show ?thesis unfolding d(2) by auto
    next
      assume "11 \<le> length (fileContents s)"
      with keep show ?thesis by simp
    qed
    with r' show "?J (replace_at i new threads) s'" by blast
  next
    fix threads :: "walk_state thread list" and s i err s'
    show "?Q (Some err, s')" by simp
  next
    fix s :: walk_state
    assume "?J [] s"
    then show "?Q (None, s)" by simp
  next
    from assms show "?J threads s" by blast
  qed
qed

text \<open>
  The map grows by at most one entry for each pending blob that passes the filter and
  can be read.
\<close>

lemma walk_threads_count:
  assumes "\<forall>t \<in> set threads. reading pats cur t"
  shows "length (fileContents (snd (walk_threads (walkTree_map pats cur) sched threads s)))
           \<le> length (fileContents s) + length (filter (extractable pats cur) (pending threads))"
proof -
  define N where "N = length (fileContents s) + length (filter (extractable pats cur) (pending threads))"
  let ?J = "\<lambda>(threads :: walk_state thread list) (s :: walk_state).
      (\<forall>t \<in> set threads. reading pats cur t)
      \<and> length (fileContents s) + length (filter (extractable pats cur) (pending threads)) \<le> N"
  let ?Q = "\<lambda>r :: error option \<times> walk_state. length (fileContents (snd r)) \<le> N"
  have "?Q (walk_threads (walkTree_map pats cur) sched threads s)"
  proof (rule walk_threads_rule[where J = ?J and Q = ?Q])
    fix threads :: "walk_state thread list" and s i new s'
    assume J: "?J threads s" and i: "i < length threads"
      and st: "thread_step (walkTree_map pats cur) (threads ! i) s = (Inr new, s')"
    from replace_at_decomp[OF i] obtain pre post where
      d: "threads = pre @ threads ! i # post" "replace_at i new threads = pre @ new @ post"
      by blast
    let ?t = "threads ! i"
    have pt: "pending threads = pending pre @ pending [?t] @ pending post"
      by (subst d(1)) (metis pending_append append_Cons append_Nil)
    from J i have rt: "reading pats cur ?t" by simp
    from J i st have r': "\<forall>t \<in> set (replace_at i new threads). reading pats cur t"
      using walkTree_step_pending[of threads pats cur UNIV i s new s'] by blast
    have "length (fileContents s') + length (filter (extractable pats cur) (pending new))
            \<le> length (fileContents s) + length (filter (extractable pats cur) (pending [?t]))"
      using rt
    proof (cases rule: walkTree_step[where s = s])
      case (skip e r s'')
      with st have "new = started r e" "s' = s''" by simp_all
      with skip show ?thesis by (simp add: pending_started entries_of_eq[of e])
    next
      case (await e)
      with st show ?thesis by auto
    next
      case (fail e k m)
      with st show ?thesis by simp
    next
      case (store e k raw)
      with st have "new = started Undefined e" "length (fileContents s') \<le> Suc (length (fileContents s))"
        by (auto simp: length_update_le)
      with store show ?thesis by (simp add: pending_started entries_of_eq[of e])
    qed
    with J have "length (fileContents s') + length (filter (extractable pats cur) (pending (replace_at i new threads))) \<le> N"
      unfolding d(2) pt by simp
    with r' show "?J (replace_at i new threads) s'" by blast
  next
    fix threads :: "walk_state thread list" and s i err s'
    assume J: "?J threads s" and i: "i < length threads"
      and st: "thread_step (walkTree_map pats cur) (threads ! i) s = (Inl err, s')"
    from J i have "reading pats cur (threads ! i)" by simp
    then have "length (fileContents s') = length (fileContents s)"
    proof (cases rule: walkTree_step[where s = s])
      case (skip e r s'')
      with st show ?thesis by simp
    next
      case (await e)
      with st show ?thesis by simp
    next
      case (fail e k m)
      with st show ?thesis by simp
    next
      case (store e k raw)
      with st show ?thesis by simp
    qed
    with J show "?Q (Some err, s')" by simp
  next
    fix s :: walk_state
    assume "?J [] s"
    then show "?Q (None, s)" by simp
  next
    from assms show "?J threads s" unfolding N_def by simp
  qed
  then show ?thesis unfolding N_def by simp
qed

lemma walkTree_root_failure:
  "treeOf dir ref = Inl msg \<Longrightarrow> walkTree sched dir ref st pats cur = (Some (Error msg), st)"
  by (simp add: walkTree_def)

lemma walkTree_unreadable:
  assumes "treeOf dir ref = Inr root" "e \<in> set (entries_of root)" "unreadable pats cur e"
  shows "(\<exists>e' \<in> set (entries_of root). unreadable pats cur e'
            \<and> fst (walkTree sched dir ref st pats cur) = Some (Error (projl (econtent e'))))
       \<or> (fst (walkTree sched dir ref st pats cur) = None
            \<and> 11 \<le> length (fileContents (snd (walkTree sched dir ref st pats cur))))"
proof -
  let ?w = "walk_threads (walkTree_map pats cur) sched [Start root] st"
  have w: "walkTree sched dir ref st pats cur = ?w" using assms(1) by (simp add: walkTree_def walk_def)
  have r: "\<forall>t \<in> set [Start root :: walk_state thread]. reading pats cur t" by (simp add: reading_def)
  show ?thesis
  proof (cases "fst ?w")
    case None
    with walk_threads_poison[OF r, of st sched] assms(2,3) w show ?thesis by auto
  next
    case (Some err)
    from walk_threads_error_origin[OF r _ Some, of "set (entries_of root)"]
    obtain e' where "e' \<in> set (entries_of root)" "unreadable pats cur e'" "econtent e' = Inl (message err)"
      by auto
    moreover from this(3) have "err = Error (projl (econtent e'))" by (simp add: error_eq)
    ultimately show ?thesis using Some w by auto
  qed
qed

lemma walkTree_few_extractable:
  assumes "treeOf dir ref = Inr root" "e \<in> set (entries_of root)" "unreadable pats cur e"
    "length (fileContents st) + length (filter (extractable pats cur) (entries_of root)) < 11"
  shows "fst (walkTree sched dir ref st pats cur) \<noteq> None"
proof -
  let ?w = "walk_threads (walkTree_map pats cur) sched [Start root] st"
  have w: "walkTree sched dir ref st pats cur = ?w" using assms(1) by (simp add: walkTree_def walk_def)
  have r: "\<forall>t \<in> set [Start root :: walk_state thread]. reading pats cur t" by (simp add: reading_def)
  from walk_threads_count[OF r, of sched st] assms(4)
  have "length (fileContents (snd ?w)) < 11" by simp
  with walkTree_unreadable[OF assms(1-3), of sched st] w show ?thesis by auto
qed

lemma getRepositoryData_walk_error:
  assumes "mkdtemp w = Inr d" "clone w url headers (branch \<noteq> []) = Inr dir"
    "listFiles dir (if branch \<noteq> [] then branch else ''HEAD'') = Inr files" "files \<noteq> []"
    "walkTree (extraction_order w) dir branch \<lparr>fileContents = [], console = sys_console s\<rparr>
       (parseIgnorePatterns defaultIgnorePatterns) [] = (Some err, st')"
  shows "fst (getRepositoryData w url headers branch s) =
           Inl (Error (''Failed to get repository data: '' @ message err))"
proof -
  have "fst (getRepositoryData_try w url headers branch (sys_console s)) = Inl err"
    using assms(2-5) by (simp add: getRepositoryData_try_def)
  then show ?thesis by (simp add: getRepositoryData_outcome[OF assms(1)])
qed

text \<open>
  C4 (as amended). A failure to read the content of a blob is not caught in the walk. If
  the tree holds a blob that passes the filter and cannot be read, then in whatever order
  the reads complete the walk either stops with the error of such a blob, or ends with
  at least eleven entries in the map (the blob was tested when the map was full, and
  was not read); with fewer than eleven readable blobs that pass the filter the walk
  always stops with the error. A failure to open the tree stops the walk in the same
  way. An error of the walk is not caught in \<open>getRepositoryData\<close> either: the call
  fails with \<open>Failed to get repository data:\<close> and the message of the error, and no map
  is returned.
\<close>

theorem unreadable_blob_aborts:
  "(\<forall>msg. treeOf dir ref = Inl msg \<longrightarrow>
       walkTree sched dir ref st pats cur = (Some (Error msg), st))
   \<and> (\<forall>root e. treeOf dir ref = Inr root \<and> e \<in> set (entries_of root) \<and> unreadable pats cur e \<longrightarrow>
        ((\<exists>e' \<in> set (entries_of root). unreadable pats cur e'
             \<and> fst (walkTree sched dir ref st pats cur) = Some (Error (projl (econtent e'))))
         \<or> (fst (walkTree sched dir ref st pats cur) = None
             \<and> 11 \<le> length (fileContents (snd (walkTree sched dir ref st pats cur)))))
        \<and> (length (fileContents st) + length (filter (extractable pats cur) (entries_of root)) < 11
             \<longrightarrow> fst (walkTree sched dir ref st pats cur) \<noteq> None))
   \<and> (\<forall>d repo files err st'.
         mkdtemp w = Inr d \<and> clone w url headers (branch \<noteq> []) = Inr repo
         \<and> listFiles repo (if branch \<noteq> [] then branch else ''HEAD'') = Inr files \<and> files \<noteq> []
         \<and> walkTree (extraction_order w) repo branch \<lparr>fileContents = [], console = sys_console s\<rparr>
              (parseIgnorePatterns defaultIgnorePatterns) [] = (Some err, st')
         \<longrightarrow> fst (getRepositoryData w url headers branch s) =
               Inl (Error (''Failed to get repository data: '' @ message err)))"
proof (intro conjI allI impI)
  fix msg assume "treeOf dir ref = Inl msg"
  then show "walkTree sched dir ref st pats cur = (Some (Error msg), st)"
    by (rule walkTree_root_failure)
next
  fix root e
  assume "treeOf dir ref = Inr root \<and> e \<in> set (entries_of root) \<and> unreadable pats cur e"
  then show "(\<exists>e' \<in> set (entries_of root). unreadable pats cur e'
             \<and> fst (walkTree sched dir ref st pats cur) = Some (Error (projl (econtent e'))))
         \<or> (fst (walkTree sched dir ref st pats cur) = None
             \<and> 11 \<le> length (fileContents (snd (walkTree sched dir ref st pats cur))))"
    using walkTree_unreadable[of dir ref root e pats cur sched st] by blast
next
  fix root e
  assume "treeOf dir ref = Inr root \<and> e \<in> set (entries_of root) \<and> unreadable pats cur e"
    "length (fileContents st) + length (filter (extractable pats cur) (entries_of root)) < 11"
  then show "fst (walkTree sched dir ref st pats cur) \<noteq> None"
    using walkTree_few_extractable[of dir ref root e pats cur st sched] by blast
next
  fix d repo files err st'
  assume "mkdtemp w = Inr d \<and> clone w url headers (branch \<noteq> []) = Inr repo
         \<and> listFiles repo (if branch \<noteq> [] then branch else ''HEAD'') = Inr files \<and> files \<noteq> []
         \<and> walkTree (extraction_order w) repo branch \<lparr>fileContents = [], console = sys_console s\<rparr>
              (parseIgnorePatterns defaultIgnorePatterns) [] = (Some err, st')"
  then show "fst (getRepositoryData w url headers branch s) =
               Inl (Error (''Failed to get repository data: '' @ message err))"
    using getRepositoryData_walk_error[of w d url headers branch repo files s err st'] by blast
qed

theorem unreadable_blob_aborts_witness:
  "walkTree [] broken_repo ''HEAD'' \<lparr>fileContents = [], console = []\<rparr>
       (parseIgnorePatterns defaultIgnorePatterns) []
     = (Some (Error ''EACCES: permission denied, open''), \<lparr>fileContents = [], console = []\<rparr>)
   \<and> fst (walkTree [0, 1, 0] (repo_of unreadable_tree) ''HEAD'' \<lparr>fileContents = [], console = []\<rparr>
       (parseIgnorePatterns defaultIgnorePatterns) []) \<noteq> None
   \<and> fst (getRepositoryData (world_of unreadable_tree None) ''https://host/o/r'' [] ''HEAD'' no_sys) =
       Inl (Error (''Failed to get repository data: '' @ ''EIO: i/o error, read''))"
proof -
  let ?pats = "parseIgnorePatterns defaultIgnorePatterns"
  let ?st = "\<lparr>fileContents = [], console = []\<rparr>"
  let ?w = "world_of unreadable_tree None"
  let ?bad = "GitEntry ''src/a.ts'' ''blob'' (Inl ''EIO: i/o error, read'') []"
  have root: "treeOf broken_repo ''HEAD'' = Inl ''EACCES: permission denied, open''"
    by (simp add: broken_repo_def)
  have tree: "treeOf (repo_of unreadable_tree) ''HEAD'' = Inr unreadable_tree"
    by (simp add: repo_of_def)
  have bad: "?bad \<in> set (entries_of unreadable_tree)" by code_simp
  have un: "unreadable ?pats [] ?bad" by code_simp
  have few: "length (fileContents ?st) + length (filter (extractable ?pats []) (entries_of unreadable_tree)) < 11"
    by code_simp
  have w: "mkdtemp ?w = Inr ''/tmp/repo-clone-Ab12Cd''"
    "clone ?w ''https://host/o/r'' [] (''HEAD'' \<noteq> []) = Inr (repo_of unreadable_tree)"
    "extraction_order ?w = []" "sys_console no_sys = []"
    by (simp_all add: world_of_def no_sys_def)
  have l: "listFiles (repo_of unreadable_tree) (if ''HEAD'' \<noteq> [] then ''HEAD'' else ''HEAD'')
             = Inr [''b.ts'', ''src/a.ts'', ''src/c.ts'']"
    by (simp add: repo_of_def unreadable_tree_def blob_entry_def)
  have "fst (walkTree [] (repo_of unreadable_tree) ''HEAD'' ?st ?pats []) = Some (Error ''EIO: i/o error, read'')"
    by code_simp
  then have stop: "walkTree (extraction_order ?w) (repo_of unreadable_tree) ''HEAD''
        \<lparr>fileContents = [], console = sys_console no_sys\<rparr> ?pats []
      = (Some (Error ''EIO: i/o error, read''), snd (walkTree [] (repo_of unreadable_tree) ''HEAD'' ?st ?pats []))"
    unfolding w by (metis prod.collapse)
  have 1: "walkTree [] broken_repo ''HEAD'' ?st ?pats [] = (Some (Error ''EACCES: permission denied, open''), ?st)"
    using unreadable_blob_aborts[where dir = broken_repo and ref = "''HEAD''" and sched = "[]"
        and st = ?st and pats = ?pats and cur = "[]"] root
    by blast
  have 2: "fst (walkTree [0, 1, 0] (repo_of unreadable_tree) ''HEAD'' ?st ?pats []) \<noteq> None"
    using unreadable_blob_aborts[where dir = "repo_of unreadable_tree" and ref = "''HEAD''"
        and sched = "[0, 1, 0]" and st = ?st and pats = ?pats and cur = "[]"] tree bad un few
    by blast
  have "fst (getRepositoryData ?w ''https://host/o/r'' [] ''HEAD'' no_sys) =
       Inl (Error (''Failed to get repository data: '' @ message (Error ''EIO: i/o error, read'')))"
    using unreadable_blob_aborts[where w = ?w and url = "''https://host/o/r''" and headers = "[]"
        and branch = "''HEAD''" and s = no_sys] w(1,2) l stop
    by blast
  then have 3: "fst (getRepositoryData ?w ''https://host/o/r'' [] ''HEAD'' no_sys) =
       Inl (Error (''Failed to get repository data: '' @ ''EIO: i/o error, read''))"
    by (simp only: error.sel)
  from 1 2 3 show ?thesis by (intro conjI)
qed

text \<open>
  The claim as it was stated (the path is left out and its siblings are still walked)
  fails on a tree that holds, in one directory, a file that cannot be read and a file
  that can: in whatever order the reads complete, the call returns no map at all, though
  the readable file passes the filter.
\<close>

theorem unreadable_blob_counterexample:
  "(\<forall>order. fst (getRepositoryData (world_of unreadable_tree None\<lparr>extraction_order := order\<rparr>)
                   ''https://host/o/r'' [] ''HEAD'' no_sys) =
             Inl (Error ''Failed to get repository data: EIO: i/o error, read''))
   \<and> blob_entry ''src/c.ts'' ''let c;'' \<in> set (entries_of unreadable_tree)
   \<and> extractable (parseIgnorePatterns defaultIgnorePatterns) [] (blob_entry ''src/c.ts'' ''let c;'')"
proof (intro conjI allI)
  fix order
  let ?pats = "parseIgnorePatterns defaultIgnorePatterns"
  let ?st = "\<lparr>fileContents = [], console = sys_console no_sys\<rparr>"
  let ?w = "world_of unreadable_tree None\<lparr>extraction_order := order\<rparr>"
  let ?bad = "GitEntry ''src/a.ts'' ''blob'' (Inl ''EIO: i/o error, read'') []"
  let ?walk = "walkTree order (repo_of unreadable_tree) ''HEAD'' ?st ?pats []"
  have tree: "treeOf (repo_of unreadable_tree) ''HEAD'' = Inr unreadable_tree"
    by (simp add: repo_of_def)
  have bad: "?bad \<in> set (entries_of unreadable_tree)" by code_simp
  have un: "unreadable ?pats [] ?bad" by code_simp
  have "length (filter (extractable ?pats []) (entries_of unreadable_tree)) < 11" by code_simp
  then have few: "length (fileContents ?st) + length (filter (extractable ?pats []) (entries_of unreadable_tree)) < 11"
    by simp
  have only: "list_all (\<lambda>e. \<not> unreadable ?pats [] e \<or> projl (econtent e) = ''EIO: i/o error, read'')
                (entries_of unreadable_tree)"
    by code_simp
  have w: "mkdtemp ?w = Inr ''/tmp/repo-clone-Ab12Cd''"
    "clone ?w ''https://host/o/r'' [] (''HEAD'' \<noteq> []) = Inr (repo_of unreadable_tree)"
    "extraction_order ?w = order"
    by (simp_all add: world_of_def)
  have l: "listFiles (repo_of unreadable_tree) (if ''HEAD'' \<noteq> [] then ''HEAD'' else ''HEAD'')
             = Inr [''b.ts'', ''src/a.ts'', ''src/c.ts'']"
    by (simp add: repo_of_def unreadable_tree_def blob_entry_def)
  from walkTree_few_extractable[OF tree bad un few, of order] have "fst ?walk \<noteq> None" .
  with walkTree_unreadable[OF tree bad un, of order ?st]
  obtain e' where "e' \<in> set (entries_of unreadable_tree)" "unreadable ?pats [] e'"
    "fst ?walk = Some (Error (projl (econtent e')))"
    by blast
  with only have "fst ?walk = Some (Error ''EIO: i/o error, read'')"
    by (auto simp: list_all_iff)
  then have "walkTree (extraction_order ?w) (repo_of unreadable_tree) ''HEAD'' ?st ?pats []
      = (Some (Error ''EIO: i/o error, read''), snd ?walk)"
    unfolding w by (metis prod.collapse)
  from getRepositoryData_walk_error[OF w(1,2) l _ this]
  show "fst (getRepositoryData ?w ''https://host/o/r'' [] ''HEAD'' no_sys) =
             Inl (Error ''Failed to get repository data: EIO: i/o error, read'')"
    by simp
next
  show "blob_entry ''src/c.ts'' ''let c;'' \<in> set (entries_of unreadable_tree)" by code_simp
next
  show "extractable (parseIgnorePatterns defaultIgnorePatterns) [] (blob_entry ''src/c.ts'' ''let c;'')"
    by code_simp
qed

section \<open>The summarizer on the two source texts of the specification\<close>

declare processNode.simps [simp del] processFunctionLogicNode.simps [simp del]

lemma keep_member:
  "f x = Some y \<Longrightarrow> x \<in> set xs \<Longrightarrow> y \<in> set (concat (map (\<lambda>c. keep (f c)) xs))"
  by (auto simp: keep_def intro!: bexI[of _ x])

lemma logic_return:
  assumes "return_of t r"
  shows "processFunctionLogicNode fileName r =
           Some (LlmAstNode ((blank ''ReturnStatement'')\<lparr>val := Some (VString t)\<rparr>) None None)"
  using assms unfolding return_of_def
  by (subst processFunctionLogicNode.simps) (auto split: option.splits)

lemma logic_block_return:
  assumes "block_return_of t b"
  shows "processFunctionLogicNode fileName b =
           Some (LlmAstNode (blank ''Block'') None
                   (Some [LlmAstNode ((blank ''ReturnStatement'')\<lparr>val := Some (VString t)\<rparr>) None None]))"
proof -
  from assms obtain r where b: "kind b = ''Block''" "forEachChild b = [r]" "return_of t r"
    unfolding block_return_of_def by (auto split: list.splits)
  show ?thesis
    by (subst processFunctionLogicNode.simps) (simp add: b(1,2) logic_return[OF b(3)] keep_def)
qed

lemma logic_if:
  assumes "if_x_return_1_else_2 s"
  shows "processFunctionLogicNode fileName s =
     Some (LlmAstNode ((blank ''IfStatement'')\<lparr>name := Some ''if (x)''\<rparr>) None
       (Some
         [LlmAstNode (blank ''ThenBlock'') None
            (Some [LlmAstNode (blank ''Block'') None
               (Some [LlmAstNode ((blank ''ReturnStatement'')\<lparr>val := Some (VString ''1'')\<rparr>) None None])]),
          LlmAstNode (blank ''ElseBlock'') None
            (Some [LlmAstNode (blank ''Block'') None
               (Some [LlmAstNode ((blank ''ReturnStatement'')\<lparr>val := Some (VString ''2'')\<rparr>) None None])])]))"
proof -
  from assms obtain c tb eb where s: "kind s = ''IfStatement''"
      "child_of s ''expression'' = Some c" "getText c = ''x''"
      "child_of s ''thenStatement'' = Some tb" "block_return_of ''1'' tb"
      "child_of s ''elseStatement'' = Some eb" "block_return_of ''2'' eb"
    unfolding if_x_return_1_else_2_def by (auto split: option.splits)
  show ?thesis
    by (subst processFunctionLogicNode.simps)
       (simp add: s(1-4,6) logic_block_return[OF s(5)] logic_block_return[OF s(7)] text_of_def)
qed

lemma function_like_flow:
  assumes "kind fn = ''FunctionDeclaration'' \<or> kind fn = ''MethodDeclaration''
           \<or> kind fn = ''ArrowFunction'' \<or> kind fn = ''Constructor''"
      and "\<not> isToken fn"
      and "child_of fn ''body'' = Some body"
  shows "\<exists>n. processNode fileName fn = Some n
           \<and> logicFlow n = Some (concat (map (\<lambda>c. keep (processFunctionLogicNode fileName c)) (forEachChild body)))"
  using assms
  by (subst processNode.simps) auto

lemma module_children:
  assumes "kind sf = ''SourceFile''" "\<not> isToken sf" "d \<in> set (forEachChild sf)"
    "processNode (case attr sf ''fileName'' of None \<Rightarrow> [] | Some f \<Rightarrow> f) d = Some n"
  shows "\<exists>cs. parseTypeScriptApiAndStructure sf = Some cs \<and> n \<in> set cs"
proof -
  let ?f = "case attr sf ''fileName'' of None \<Rightarrow> [] | Some f \<Rightarrow> f"
  have "\<exists>root. processNode ?f sf = Some root
          \<and> children root = Some (concat (map (\<lambda>c. keep (processNode ?f c)) (forEachChild sf)))"
    using assms(1,2) by (subst processNode.simps) simp
  moreover have "n \<in> set (concat (map (\<lambda>c. keep (processNode ?f c)) (forEachChild sf)))"
    by (rule keep_member[where f = "processNode ?f", OF assms(4,3)])
  ultimately show ?thesis unfolding parseTypeScriptApiAndStructure_def by auto
qed

text \<open>
  C7. Whenever the statement \<open>if (x) { return 1; } else { return 2; }\<close> stands in the
  body of a function, a method, an arrow function or a constructor, the logic flow of
  the node summarizing it holds an \<open>IfStatement\<close> node with the name \<open>if (x)\<close> and two
  children: a \<open>ThenBlock\<close> under which (inside the \<open>Block\<close> node of the braces) stands
  the \<open>ReturnStatement\<close> with value \<open>1\<close>, and an \<open>ElseBlock\<close> under which stands the
  \<open>ReturnStatement\<close> with value \<open>2\<close>. A function declared at the top level of a source
  file is summarized into the output of \<open>parseTypeScriptApiAndStructure\<close>.
\<close>

theorem if_else_logic_flow:
  assumes "if_x_return_1_else_2 s"
      and "kind fn = ''FunctionDeclaration'' \<or> kind fn = ''MethodDeclaration''
           \<or> kind fn = ''ArrowFunction'' \<or> kind fn = ''Constructor''"
      and "\<not> isToken fn"
      and "child_of fn ''body'' = Some body"
      and "s \<in> set (forEachChild body)"
  shows "\<exists>n flow thenBlock elseBlock.
           processNode fileName fn = Some n \<and> logicFlow n = Some flow
         \<and> LlmAstNode ((blank ''IfStatement'')\<lparr>name := Some ''if (x)''\<rparr>) None
              (Some [thenBlock, elseBlock]) \<in> set flow
         \<and> thenBlock = LlmAstNode (blank ''ThenBlock'') None
              (Some [LlmAstNode (blank ''Block'') None
                 (Some [LlmAstNode ((blank ''ReturnStatement'')\<lparr>val := Some (VString ''1'')\<rparr>) None None])])
         \<and> elseBlock = LlmAstNode (blank ''ElseBlock'') None
              (Some [LlmAstNode (blank ''Block'') None
                 (Some [LlmAstNode ((blank ''ReturnStatement'')\<lparr>val := Some (VString ''2'')\<rparr>) None None])])
         \<and> LlmAstNode ((blank ''ReturnStatement'')\<lparr>val := Some (VString ''1'')\<rparr>) None None
              \<in> set (subnodes thenBlock)
         \<and> LlmAstNode ((blank ''ReturnStatement'')\<lparr>val := Some (VString ''2'')\<rparr>) None None
              \<in> set (subnodes elseBlock)
         \<and> (kind sf = ''SourceFile'' \<and> \<not> isToken sf \<and> fn \<in> set (forEachChild sf)
              \<and> attr sf ''fileName'' = Some fileName
            \<longrightarrow> (\<exists>cs. parseTypeScriptApiAndStructure sf = Some cs \<and> n \<in> set cs))"
proof -
  from function_like_flow[OF assms(2-4)] obtain n where
    n: "processNode fileName fn = Some n"
       "logicFlow n = Some (concat (map (\<lambda>c. keep (processFunctionLogicNode fileName c)) (forEachChild body)))"
    by blast
  let ?r1 = "LlmAstNode ((blank ''ReturnStatement'')\<lparr>val := Some (VString ''1'')\<rparr>) None None"
  let ?r2 = "LlmAstNode ((blank ''ReturnStatement'')\<lparr>val := Some (VString ''2'')\<rparr>) None None"
  let ?t = "LlmAstNode (blank ''ThenBlock'') None (Some [LlmAstNode (blank ''Block'') None (Some [?r1])])"
  let ?e = "LlmAstNode (blank ''ElseBlock'') None (Some [LlmAstNode (blank ''Block'') None (Some [?r2])])"
  have mem: "LlmAstNode ((blank ''IfStatement'')\<lparr>name := Some ''if (x)''\<rparr>) None (Some [?t, ?e])
      \<in> set (concat (map (\<lambda>c. keep (processFunctionLogicNode fileName c)) (forEachChild body)))"
    by (rule keep_member[where f = "processFunctionLogicNode fileName", OF logic_if[OF assms(1)] assms(5)])
  have sub: "?r1 \<in> set (subnodes ?t)" "?r2 \<in> set (subnodes ?e)" by simp_all
  have top: "\<exists>cs. parseTypeScriptApiAndStructure sf = Some cs \<and> n \<in> set cs"
    if "kind sf = ''SourceFile''" "\<not> isToken sf" "fn \<in> set (forEachChild sf)"
       "attr sf ''fileName'' = Some fileName"
    using module_children[OF that(1-3), of n] n(1) that(4) by simp
  show ?thesis
    using n mem sub top by blast
qed

theorem if_else_logic_flow_witness:
  "\<exists>n flow thenBlock elseBlock.
     processNode ''temp.ts'' example_function = Some n \<and> logicFlow n = Some flow
   \<and> LlmAstNode ((blank ''IfStatement'')\<lparr>name := Some ''if (x)''\<rparr>) None
        (Some [thenBlock, elseBlock]) \<in> set flow
   \<and> thenBlock = LlmAstNode (blank ''ThenBlock'') None
        (Some [LlmAstNode (blank ''Block'') None
           (Some [LlmAstNode ((blank ''ReturnStatement'')\<lparr>val := Some (VString ''1'')\<rparr>) None None])])
   \<and> elseBlock = LlmAstNode (blank ''ElseBlock'') None
        (Some [LlmAstNode (blank ''Block'') None
           (Some [LlmAstNode ((blank ''ReturnStatement'')\<lparr>val := Some (VString ''2'')\<rparr>) None None])])
   \<and> LlmAstNode ((blank ''ReturnStatement'')\<lparr>val := Some (VString ''1'')\<rparr>) None None
        \<in> set (subnodes thenBlock)
   \<and> LlmAstNode ((blank ''ReturnStatement'')\<lparr>val := Some (VString ''2'')\<rparr>) None None
        \<in> set (subnodes elseBlock)
   \<and> (\<exists>cs. parseTypeScriptApiAndStructure example_source = Some cs \<and> n \<in> set cs)"
proof -
  have a: "if_x_return_1_else_2 example_if" by code_simp
  have b: "kind example_function = ''FunctionDeclaration'' \<or> kind example_function = ''MethodDeclaration''
           \<or> kind example_function = ''ArrowFunction'' \<or> kind example_function = ''Constructor''"
    by code_simp
  have c: "\<not> isToken example_function" by code_simp
  have d: "child_of example_function ''body'' =
             Some (syntax_node ''Block'' ''{ if (x) { return 1; } else { return 2; } }''
                     [(''statements'', example_if)])"
    by (simp add: example_function_def syntax_node_def child_of_def)
  have e: "example_if \<in> set (forEachChild (syntax_node ''Block'' ''{ if (x) { return 1; } else { return 2; } }''
                     [(''statements'', example_if)]))"
    by (simp add: syntax_node_def forEachChild_def)
  have f: "kind example_source = ''SourceFile'' \<and> \<not> isToken example_source
      \<and> example_function \<in> set (forEachChild example_source)
      \<and> attr example_source ''fileName'' = Some ''temp.ts''"
    by (simp add: example_source_def forEachChild_def attr_def)
  from if_else_logic_flow[OF a b c d e, of "''temp.ts''" example_source] f show ?thesis by blast
qed

text \<open>
  C8. The declaration \<open>import { Foo, Bar as Baz } from "./mod"\<close> is summarized to an
  \<open>Import\<close> node with the module specifier \<open>./mod\<close> and exactly two imported elements:
  the name \<open>Foo\<close> with no alias, and the name \<open>Baz\<close> with the alias \<open>Bar\<close>. Where the
  declaration is a statement of a source file, that node is among the nodes
  \<open>parseTypeScriptApiAndStructure\<close> returns.
\<close>

theorem named_import_summary:
  assumes "import_foo_bar_as_baz d"
  shows "\<exists>n. processNode fileName d = Some n
           \<and> type (fields n) = ''Import''
           \<and> moduleSpecifier (fields n) = Some ''./mod''
           \<and> importedElements (fields n) =
                Some [ImportedElement ''Foo'' None None None,
                      ImportedElement ''Baz'' (Some ''Bar'') None None]
           \<and> (kind sf = ''SourceFile'' \<and> \<not> isToken sf \<and> d \<in> set (forEachChild sf)
                \<and> attr sf ''fileName'' = Some fileName
              \<longrightarrow> (\<exists>cs. parseTypeScriptApiAndStructure sf = Some cs \<and> n \<in> set cs))"
proof -
  from assms obtain m clause nb where d: "kind d = ''ImportDeclaration''" "\<not> isToken d"
      "child_of d ''moduleSpecifier'' = Some m" "getText m = [CHR 0x22] @ ''./mod'' @ [CHR 0x22]"
      "child_of d ''importClause'' = Some clause" "child_of clause ''name'' = None"
      "child_of clause ''namedBindings'' = Some nb" "kind nb = ''NamedImports''"
      "map (\<lambda>e. (text_of (child_of e ''name''), map_option getText (child_of e ''propertyName'')))
         (children_of nb ''elements'') = [(''Foo'', None), (''Baz'', Some ''Bar'')]"
    unfolding import_foo_bar_as_baz_def by (auto split: option.splits)
  from d(9) obtain e1 e2 where e: "children_of nb ''elements'' = [e1, e2]"
      "text_of (child_of e1 ''name'') = ''Foo''" "child_of e1 ''propertyName'' = None"
      "text_of (child_of e2 ''name'') = ''Baz''" "map_option getText (child_of e2 ''propertyName'') = Some ''Bar''"
    by (auto simp: map_eq_Cons_conv)
  have ms: "strip_quotes (text_of (child_of d ''moduleSpecifier'')) = ''./mod''"
    by (simp add: d(3,4) text_of_def strip_quotes_def)
  have "\<exists>n. processNode fileName d = Some n
           \<and> type (fields n) = ''Import''
           \<and> moduleSpecifier (fields n) = Some ''./mod''
           \<and> importedElements (fields n) =
                Some [ImportedElement ''Foo'' None None None,
                      ImportedElement ''Baz'' (Some ''Bar'') None None]"
    by (subst processNode.simps) (simp add: d(1,2,5-8) e ms)
  then obtain n where n: "processNode fileName d = Some n" "type (fields n) = ''Import''"
      "moduleSpecifier (fields n) = Some ''./mod''"
      "importedElements (fields n) =
                Some [ImportedElement ''Foo'' None None None,
                      ImportedElement ''Baz'' (Some ''Bar'') None None]"
    by blast
  have top: "\<exists>cs. parseTypeScriptApiAndStructure sf = Some cs \<and> n \<in> set cs"
    if "kind sf = ''SourceFile''" "\<not> isToken sf" "d \<in> set (forEachChild sf)"
       "attr sf ''fileName'' = Some fileName"
    using module_children[OF that(1-3), of n] n(1) that(4) by simp
  show ?thesis using n top by blast
qed

theorem named_import_summary_witness:
  "\<exists>n. processNode ''temp.ts'' example_import = Some n
     \<and> type (fields n) = ''Import''
     \<and> moduleSpecifier (fields n) = Some ''./mod''
     \<and> importedElements (fields n) =
          Some [ImportedElement ''Foo'' None None None,
                ImportedElement ''Baz'' (Some ''Bar'') None None]
     \<and> (\<exists>cs. parseTypeScriptApiAndStructure example_source = Some cs \<and> n \<in> set cs)"
proof -
  have a: "import_foo_bar_as_baz example_import" by code_simp
  have f: "kind example_source = ''SourceFile'' \<and> \<not> isToken example_source
      \<and> example_import \<in> set (forEachChild example_source)
      \<and> attr example_source ''fileName'' = Some ''temp.ts''"
    by (simp add: example_source_def forEachChild_def attr_def)
  from named_import_summary[OF a, of "''temp.ts''" example_source] f show ?thesis by blast
qed

end
